theory Spec2Isabelle
  imports Complex_Main "HOL-Library.Word"
begin

unbundle bit_operations_syntax

section \<open>Floating-point numbers\<close>

text \<open>
  The array \<^verbatim>\<open>costs\<close> of the forward pass holds \<^verbatim>\<open>float\<close>s, and the costs the
  program computes with are \<^verbatim>\<open>double\<close>s.  A floating-point number is modelled as the
  real number it denotes, and a conversion or an arithmetic operation as the exact
  operation followed by rounding: to the nearest number with \<open>p\<close> bits of precision and an
  exponent of at least \<open>emin\<close>, ties to the even significand (IEEE 754 binary32 has
  \<open>p = 24\<close> and \<open>emin = - 126\<close>, binary64 has \<open>p = 53\<close> and \<open>emin = - 1022\<close>).
  Numbers below \<open>2 ^ emin\<close> are rounded on the grid of the subnormal numbers.  The
  exponent is not bounded above: an overflow to infinity is outside the model, which is
  the program's as long as no cost reaches the largest \<^verbatim>\<open>float\<close>, about \<open>3.4e38\<close>.
\<close>

definition round_even :: "real \<Rightarrow> int" where
  "round_even x =
     (let f = \<lfloor>x\<rfloor>; r = x - of_int f
      in if r < 1 / 2 then f else if 1 / 2 < r then f + 1 else if even f then f else f + 1)"

text \<open>\<open>round_to p emin x\<close>: the unit in the last place of \<open>x\<close> is \<open>q\<close>, and \<open>x\<close> is
  rounded to a multiple of it.\<close>

definition round_to :: "nat \<Rightarrow> int \<Rightarrow> real \<Rightarrow> real" where
  "round_to p emin x =
     (if x = 0 then 0
      else (let q = 2 powi (max emin \<lfloor>log 2 \<bar>x\<bar>\<rfloor> - int p + 1)
            in of_int (round_even (x / q)) * q))"

text \<open>The conversion to \<^verbatim>\<open>float\<close>, as in the assignment \<^verbatim>\<open>costs[j + 1] = newCost\<close>, and
  the rounding of the result of an operation on \<^verbatim>\<open>double\<close>s.\<close>

definition to_float :: "real \<Rightarrow> real" where
  "to_float = round_to 24 (- 126)"

definition to_double :: "real \<Rightarrow> real" where
  "to_double = round_to 53 (- 1022)"

lemma round_even_of_int [simp]: "round_even (of_int n) = n"
  by (simp add: round_even_def)

lemma round_even_error: "\<bar>of_int (round_even y) - y\<bar> \<le> 1 / 2"
  unfolding round_even_def Let_def by (auto simp: abs_le_iff)


lemma round_even_near:
  assumes "of_int n - 1 / 2 < y" and "y < of_int n + 1 / 2"
  shows "round_even y = n"
proof -
  have "\<lfloor>y\<rfloor> = n \<or> \<lfloor>y\<rfloor> = n - 1" using assms by linarith
  then show ?thesis
  proof
    assume "\<lfloor>y\<rfloor> = n"
    with assms show ?thesis by (simp add: round_even_def Let_def)
  next
    assume f: "\<lfloor>y\<rfloor> = n - 1"
    with assms have "1 / 2 < y - of_int \<lfloor>y\<rfloor>" by simp
    with f show ?thesis by (simp add: round_even_def Let_def)
  qed
qed

lemma round_even_tie:
  assumes "even n" and "of_int n - 1 / 2 \<le> y" and "y \<le> of_int n + 1 / 2"
  shows "round_even y = n"
proof -
  consider "y = of_int n - 1 / 2" | "y = of_int n + 1 / 2"
    | "of_int n - 1 / 2 < y" "y < of_int n + 1 / 2"
    using assms(2,3) by linarith
  then show ?thesis
  proof cases
    case 1
    then have "\<lfloor>y\<rfloor> = n - 1" by linarith
    with 1 assms(1) show ?thesis by (simp add: round_even_def Let_def)
  next
    case 2
    then have "\<lfloor>y\<rfloor> = n" by linarith
    with 2 assms(1) show ?thesis by (simp add: round_even_def Let_def)
  next
    case 3
    then show ?thesis by (rule round_even_near)
  qed
qed

lemma powr_powi: "(2::real) powr real_of_int e = 2 powi e"
  by (simp add: powr_real_of_int')

lemma floor_log2_eq:
  assumes "2 powi e \<le> x" and "x < 2 powi (e + 1)"
  shows "\<lfloor>log 2 x\<rfloor> = e"
proof -
  have "0 < (2::real) powi e" by simp
  with assms(1) have "0 < x" by linarith
  then have "(\<lfloor>log 2 x\<rfloor> = e) =
      (2 powr real_of_int e \<le> x \<and> x < 2 powr real_of_int (e + 1))"
    by (rule floor_log_eq_powr_iff) simp
  with assms show ?thesis by (simp only: powr_powi)
qed

lemma floor_log2_bounds:
  assumes "0 < x"
  shows "2 powi \<lfloor>log 2 x\<rfloor> \<le> x" and "x < 2 powi (\<lfloor>log 2 x\<rfloor> + 1)"
proof -
  from assms have "(\<lfloor>log 2 x\<rfloor> = \<lfloor>log 2 x\<rfloor>) =
      (2 powr real_of_int \<lfloor>log 2 x\<rfloor> \<le> x \<and> x < 2 powr real_of_int (\<lfloor>log 2 x\<rfloor> + 1))"
    by (rule floor_log_eq_powr_iff) simp
  then show "2 powi \<lfloor>log 2 x\<rfloor> \<le> x" and "x < 2 powi (\<lfloor>log 2 x\<rfloor> + 1)"
    by (simp_all only: powr_powi simp_thms)
qed

lemma round_to_zero [simp]: "round_to p emin 0 = 0"
  by (simp add: round_to_def)


text \<open>Rounding with the exponent given.\<close>

lemma round_to_with_exponent:
  assumes "2 powi e \<le> \<bar>x\<bar>" and "\<bar>x\<bar> < 2 powi (e + 1)"
  shows "round_to p emin x =
     of_int (round_even (x / 2 powi (max emin e - int p + 1))) * 2 powi (max emin e - int p + 1)"
proof -
  from assms have "\<lfloor>log 2 \<bar>x\<bar>\<rfloor> = e" by (rule floor_log2_eq)
  moreover have "0 < (2::real) powi e" by simp
  with assms(1) have "0 < \<bar>x\<bar>" by linarith
  then have "x \<noteq> 0" by simp
  ultimately show ?thesis by (simp add: round_to_def Let_def)
qed

lemma round_to_subnormal:
  assumes "x \<noteq> 0" and "\<bar>x\<bar> < 2 powi emin"
  shows "round_to p emin x =
     of_int (round_even (x / 2 powi (emin - int p + 1))) * 2 powi (emin - int p + 1)"
proof -
  from assms(1) have pos: "0 < \<bar>x\<bar>" by simp
  have "\<lfloor>log 2 \<bar>x\<bar>\<rfloor> < emin"
  proof (rule ccontr)
    assume "\<not> \<lfloor>log 2 \<bar>x\<bar>\<rfloor> < emin"
    then have "(2::real) powi emin \<le> 2 powi \<lfloor>log 2 \<bar>x\<bar>\<rfloor>"
      by (intro power_int_increasing) simp_all
    with floor_log2_bounds(1) [OF pos] assms(2) show False by linarith
  qed
  then have "max emin \<lfloor>log 2 \<bar>x\<bar>\<rfloor> = emin" by simp
  with assms(1) show ?thesis by (simp add: round_to_def Let_def)
qed

text \<open>The error of rounding is at most half a unit in the last place.\<close>

lemma round_to_error:
  assumes "x \<noteq> 0"
  shows "\<bar>round_to p emin x - x\<bar> \<le> 2 powi (max emin \<lfloor>log 2 \<bar>x\<bar>\<rfloor> - int p)"
proof -
  let ?E = "max emin \<lfloor>log 2 \<bar>x\<bar>\<rfloor> - int p + 1"
  let ?q = "(2::real) powi ?E"
  have q: "0 < ?q" by simp
  have "round_to p emin x - x = (of_int (round_even (x / ?q)) - x / ?q) * ?q"
    using assms q by (simp add: round_to_def Let_def algebra_simps)
  then have "\<bar>round_to p emin x - x\<bar> = \<bar>of_int (round_even (x / ?q)) - x / ?q\<bar> * ?q"
    using q by (simp add: abs_mult)
  also have "\<dots> \<le> 1 / 2 * ?q"
    using round_even_error [of "x / ?q"] q by (intro mult_right_mono) simp_all
  also have "1 / 2 * ?q = 2 powi (max emin \<lfloor>log 2 \<bar>x\<bar>\<rfloor> - int p)"
    using power_int_add_1 [of "2::real" "max emin \<lfloor>log 2 \<bar>x\<bar>\<rfloor> - int p"] by simp
  finally show ?thesis .
qed


text \<open>A number with a significand of less than \<open>p\<close> bits above the smallest exponent
  is not changed.\<close>

lemma round_to_exact:
  assumes "\<bar>m\<bar> < 2 ^ p" and "emin - int p + 1 \<le> E"
  shows "round_to p emin (of_int m * 2 powi E) = of_int m * 2 powi E"
proof (cases "m = 0")
  case True
  then show ?thesis by simp
next
  case False
  let ?x = "of_int m * (2::real) powi E"
  let ?e = "\<lfloor>log 2 \<bar>?x\<bar>\<rfloor>"
  from False have pos: "0 < \<bar>?x\<bar>" by simp
  have "\<bar>?x\<bar> = of_int \<bar>m\<bar> * 2 powi E" by (simp add: abs_mult)
  also from assms(1) have "of_int \<bar>m\<bar> < (2::real) ^ p"
    by (metis of_int_less_iff of_int_numeral of_int_power)
  then have "of_int \<bar>m\<bar> * 2 powi E < (2::real) ^ p * 2 powi E"
    by (intro mult_strict_right_mono) simp_all
  also have "(2::real) ^ p * 2 powi E = 2 powi (int p + E)"
    by (simp add: power_int_add)
  finally have "\<bar>?x\<bar> < 2 powi (int p + E)" .
  with floor_log2_bounds(1) [OF pos] have "(2::real) powi ?e < 2 powi (int p + E)" by linarith
  then have "?e < int p + E"
    by (metis linorder_not_le one_le_numeral power_int_increasing)
  with assms(2) have le: "max emin ?e - int p + 1 \<le> E" by simp
  define d where "d = nat (E - (max emin ?e - int p + 1))"
  from le have E: "E = (max emin ?e - int p + 1) + int d" by (simp add: d_def)
  define q :: real where "q = 2 powi (max emin ?e - int p + 1)"
  have q: "0 < q" by (simp add: q_def)
  have pw: "(2::real) powi E = q * 2 ^ d"
    unfolding q_def by (subst E) (simp add: power_int_add)
  with q have "?x / q = of_int (m * 2 ^ d)"
    by (simp add: field_simps)
  then have "round_even (?x / q) = m * 2 ^ d"
    by (simp only: round_even_of_int)
  then have "of_int (round_even (?x / q)) * q = ?x"
    by (simp add: pw)
  with False show ?thesis by (simp add: round_to_def Let_def q_def)
qed

lemma to_float_nat: "n < 16777216 \<Longrightarrow> to_float (real n) = real n"
  using round_to_exact [of "int n" 24 "- 126" 0] by (simp add: to_float_def)

lemma to_double_nat: "n < 16777216 \<Longrightarrow> to_double (real n) = real n"
  using round_to_exact [of "int n" 53 "- 1022" 0] by (simp add: to_double_def)



text \<open>Rules to evaluate the rounding of small natural numbers written as numerals.\<close>

lemma to_float_numeral:
  "numeral w < (16777216::nat) \<Longrightarrow> to_float (numeral w) = numeral w"
  using to_float_nat [of "numeral w"] by simp

lemma to_double_numeral:
  "numeral w < (16777216::nat) \<Longrightarrow> to_double (numeral w) = numeral w"
  using to_double_nat [of "numeral w"] by simp

lemma to_float_small [simp]: "to_float 0 = 0" "to_float 1 = 1"
  using to_float_nat [of 0] to_float_nat [of 1] by simp_all

lemma to_double_small [simp]: "to_double 0 = 0" "to_double 1 = 1"
  using to_double_nat [of 0] to_double_nat [of 1] by simp_all

lemmas round_numeral = to_float_numeral to_double_numeral

section \<open>Constants and the cost-model interface\<close>

text \<open>
  Modelled from the spec: the constants of \<^verbatim>\<open>util.h\<close>, which is not among the
  source files.  The data model gives \<^verbatim>\<open>ZOPFLI_MIN_MATCH = 3\<close>,
  \<^verbatim>\<open>ZOPFLI_MAX_MATCH = 258\<close>, \<^verbatim>\<open>ZOPFLI_WINDOW_SIZE = 32768\<close>,
  \<^verbatim>\<open>ZOPFLI_WINDOW_MASK = 32767\<close> and the sentinel \<^verbatim>\<open>1e30\<close>.  The sentinel is a
  constant of type \<^verbatim>\<open>double\<close>, the \<^verbatim>\<open>double\<close> nearest to \<open>10 ^ 30\<close>; stored in
  \<^verbatim>\<open>costs\<close> it is converted to \<^verbatim>\<open>float\<close>, which gives \<open>large_float\<close>, a larger
  number.
\<close>

definition ZOPFLI_MIN_MATCH :: nat where
  "ZOPFLI_MIN_MATCH = 3"

definition ZOPFLI_MAX_MATCH :: nat where
  "ZOPFLI_MAX_MATCH = 258"

definition ZOPFLI_WINDOW_SIZE :: nat where
  "ZOPFLI_WINDOW_SIZE = 32768"

definition ZOPFLI_WINDOW_MASK :: nat where
  "ZOPFLI_WINDOW_MASK = 32767"

definition ZOPFLI_LARGE_FLOAT :: real where
  "ZOPFLI_LARGE_FLOAT = to_double (10 ^ 30)"

definition large_float :: real where
  "large_float = to_float ZOPFLI_LARGE_FLOAT"

lemma ZOPFLI_LARGE_FLOAT_value: "ZOPFLI_LARGE_FLOAT = 1000000000000000019884624838656"
proof -
  have "round_to 53 (- 1022) (10 ^ 30) =
      of_int (round_even (10 ^ 30 / 2 powi (max (- 1022) 99 - int 53 + 1)))
      * 2 powi (max (- 1022) 99 - int 53 + 1)"
    by (rule round_to_with_exponent) simp_all
  moreover have "round_even (10 ^ 30 / 2 powi 47) = 7105427357601002"
    by (rule round_even_near) simp_all
  ultimately show ?thesis
    by (simp add: ZOPFLI_LARGE_FLOAT_def to_double_def)
qed

text \<open>Every number within \<open>2 ^ 75\<close> of the stored sentinel is rounded to it.\<close>

lemma to_float_near_large:
  assumes "\<bar>y - 1000000015047466219876688855040\<bar> \<le> 37778931862957161709568"
  shows "to_float y = 1000000015047466219876688855040"
proof -
  from assms have y: "2 powi 99 \<le> \<bar>y\<bar>" "\<bar>y\<bar> < 2 powi (99 + 1)"
    by (simp_all add: abs_le_iff)
  have "round_to 24 (- 126) y =
      of_int (round_even (y / 2 powi (max (- 126) 99 - int 24 + 1)))
      * 2 powi (max (- 126) 99 - int 24 + 1)"
    using y by (rule round_to_with_exponent)
  moreover have "round_even (y / 2 powi 76) = 13234890"
    using assms by (intro round_even_tie) (simp_all add: abs_le_iff field_simps)
  ultimately show ?thesis
    by (simp add: to_float_def)
qed

lemma large_float_value: "large_float = 1000000015047466219876688855040"
  unfolding large_float_def ZOPFLI_LARGE_FLOAT_value
  by (rule to_float_near_large) simp

lemmas round_large = large_float_value to_float_near_large

lemma large_float_minus:
  "0 \<le> b \<Longrightarrow> b \<le> 37778931862957161709568 \<Longrightarrow> to_float (large_float - b) = large_float"
  unfolding large_float_value by (rule to_float_near_large) simp

lemma large_float_plus:
  assumes "0 \<le> c" and "c \<le> 18889465931478580854784"
  shows "to_float (to_double (large_float + c)) = large_float"
proof -
  let ?x = "large_float + c"
  from assms have x: "2 powi 99 \<le> \<bar>?x\<bar>" "\<bar>?x\<bar> < 2 powi (99 + 1)"
    by (simp_all add: large_float_value)
  then have "\<lfloor>log 2 \<bar>?x\<bar>\<rfloor> = 99" by (rule floor_log2_eq)
  moreover from x have "?x \<noteq> 0" by auto
  ultimately have "\<bar>to_double ?x - ?x\<bar> \<le> 2 powi 46"
    using round_to_error [of ?x 53 "- 1022"] by (simp add: to_double_def)
  with assms have "\<bar>to_double ?x - 1000000015047466219876688855040\<bar>
      \<le> 37778931862957161709568"
    by (simp add: large_float_value abs_le_iff)
  then have "to_float (to_double ?x) = 1000000015047466219876688855040"
    by (rule to_float_near_large)
  then show ?thesis by (simp add: large_float_value)
qed

text \<open>
  \<^verbatim>\<open>typedef double CostModelFun(unsigned litlen, unsigned dist, void* context)\<close>:
  a cost model with its context bound.  The value it returns is a \<^verbatim>\<open>double\<close>.
\<close>

type_synonym CostModelFun = "nat \<Rightarrow> nat \<Rightarrow> real"

section \<open>GetCostModelMinCost\<close>

definition dsymbols :: "nat list" where
  "dsymbols = [1, 2, 3, 4, 5, 7, 9, 13, 17, 25, 33, 49, 65, 97, 129, 193, 257, 385, 513,
               769, 1025, 1537, 2049, 3073, 4097, 6145, 8193, 12289, 16385, 24577]"

text \<open>
  One round of the first loop: \<^verbatim>\<open>c = costmodel(i, 1); if (c < mincost) { bestlength = i;
  mincost = c; }\<close>.  The loop state is the pair \<open>(mincost, bestlength)\<close>.
\<close>

fun scan_length :: "CostModelFun \<Rightarrow> real \<times> nat \<Rightarrow> nat \<Rightarrow> real \<times> nat" where
  "scan_length costmodel (mincost, bestlength) i =
     (let c = costmodel i 1 in
      if c < mincost then (c, i) else (mincost, bestlength))"

text \<open>One round of the second loop, over the entries of \<open>dsymbols\<close>.\<close>

fun scan_dist :: "CostModelFun \<Rightarrow> real \<times> nat \<Rightarrow> nat \<Rightarrow> real \<times> nat" where
  "scan_dist costmodel (mincost, bestdist) d =
     (let c = costmodel 3 d in
      if c < mincost then (c, d) else (mincost, bestdist))"

definition GetCostModelMinCost :: "CostModelFun \<Rightarrow> real" where
  "GetCostModelMinCost costmodel =
     (let bestlength = snd (foldl (scan_length costmodel) (ZOPFLI_LARGE_FLOAT, 0) [3..<259]);
          bestdist = snd (foldl (scan_dist costmodel) (ZOPFLI_LARGE_FLOAT, 0) dsymbols)
      in costmodel bestlength bestdist)"

section \<open>The collaborators of the forward pass\<close>

text \<open>
  A failed \<^verbatim>\<open>assert\<close> aborts the program; an access outside an array is undefined
  behaviour.  Both are error values of the model.  The string of \<open>AssertionFailed\<close> is the
  text of the assertion.
\<close>

datatype error = OutOfBounds | AssertionFailed string

text \<open>
  \<^verbatim>\<open>LongestMatch\<close> as \<^verbatim>\<open>ZopfliFindLongestMatch\<close> returns it.  The field
  \<^verbatim>\<open>length\<close> is \<open>length_lm\<close> here.
\<close>

record LongestMatch =
  distance :: nat
  length_lm :: nat

text \<open>
  Modelled from the spec: the sliding-window hash and the longest-match search, which are
  not among the source files.  The spec gives their interface:
  \<^verbatim>\<open>find_longest_match(state, hash, input, pos, end, max_len)\<close> returns
  \<^verbatim>\<open>(length, distance, sublen)\<close> and is deterministic given the hash state;
  \<^verbatim>\<open>update_hash(input, pos, end, hash)\<close>, \<^verbatim>\<open>warmup_hash\<close> and
  \<^verbatim>\<open>init_hash(window_size)\<close> maintain the window; \<^verbatim>\<open>hash_same(hash)\<close> gives, for
  each window slot, a run length; \<^verbatim>\<open>verify_len_dist\<close> asserts that a back-reference
  matches the input (\<open>True\<close>: its assertions hold).  The hash is a value of an
  arbitrary type \<open>'h\<close>, returned updated.  The array \<^verbatim>\<open>sublen\<close> that
  \<^verbatim>\<open>ZopfliFindLongestMatch\<close> fills is the second component of its result.
\<close>

record 'h collaborators =
  ZopfliInitHash :: "nat \<Rightarrow> 'h"
  ZopfliWarmupHash :: "8 word list \<Rightarrow> nat \<Rightarrow> nat \<Rightarrow> 'h \<Rightarrow> 'h"
  ZopfliUpdateHash :: "8 word list \<Rightarrow> nat \<Rightarrow> nat \<Rightarrow> 'h \<Rightarrow> 'h"
  ZopfliHashSame :: "'h \<Rightarrow> nat \<Rightarrow> nat"
  ZopfliFindLongestMatch :: "'h \<Rightarrow> 8 word list \<Rightarrow> nat \<Rightarrow> nat \<Rightarrow> nat \<Rightarrow> LongestMatch \<times> (nat \<Rightarrow> nat)"
  ZopfliVerifyLenDist :: "8 word list \<Rightarrow> nat \<Rightarrow> nat \<Rightarrow> nat \<Rightarrow> nat \<Rightarrow> bool"

section \<open>GetBestLengths\<close>

text \<open>
  The arrays \<^verbatim>\<open>costs\<close> and \<^verbatim>\<open>length_array\<close> and the hash \<^verbatim>\<open>h\<close> that the forward
  pass updates.  Positions and indices (\<^verbatim>\<open>size_t\<close>) are natural numbers: a block lies
  in memory, so no index computed from it reaches \<open>2 ^ 64\<close>.  An entry of \<^verbatim>\<open>costs\<close>
  is a \<^verbatim>\<open>float\<close>: every value stored in it is converted with \<open>to_float\<close>.
\<close>

record 'h dp_state =
  costs :: "real list"
  length_array :: "nat list"
  hash :: 'h

text \<open>
  The warm-up of both passes: \<^verbatim>\<open>ZopfliInitHash\<close>, \<^verbatim>\<open>ZopfliWarmupHash\<close>, then
  \<^verbatim>\<open>ZopfliUpdateHash\<close> for every position from \<^verbatim>\<open>windowstart\<close> up to \<^verbatim>\<open>instart\<close>.
\<close>

definition warm_hash :: "'h collaborators \<Rightarrow> 8 word list \<Rightarrow> nat \<Rightarrow> nat \<Rightarrow> 'h" where
  "warm_hash c inp instart inend =
     (let windowstart = (if instart > ZOPFLI_WINDOW_SIZE then instart - ZOPFLI_WINDOW_SIZE else 0)
      in foldl (\<lambda>h i. ZopfliUpdateHash c inp i inend h)
           (ZopfliWarmupHash c inp windowstart inend (ZopfliInitHash c ZOPFLI_WINDOW_SIZE))
           [windowstart..<instart])"

text \<open>
  The inner loop of the run-of-same-byte fast path,
  \<^verbatim>\<open>for (k = 0; k < ZOPFLI_MAX_MATCH; k++)\<close>; it returns the advanced \<open>i\<close> and \<open>j\<close>.
  The sum \<^verbatim>\<open>costs[j] + symbolcost\<close> is a sum of \<^verbatim>\<open>double\<close>s, converted to
  \<^verbatim>\<open>float\<close> when it is stored.
\<close>

function fast_path_loop ::
  "'h collaborators \<Rightarrow> 8 word list \<Rightarrow> nat \<Rightarrow> real \<Rightarrow> nat \<Rightarrow> nat \<Rightarrow> nat \<Rightarrow> 'h dp_state
     \<Rightarrow> error + nat \<times> nat \<times> 'h dp_state" where
  "fast_path_loop c inp inend symbolcost k i j st =
     (if k < ZOPFLI_MAX_MATCH then
        (if length (costs st) \<le> j + ZOPFLI_MAX_MATCH
            \<or> length (length_array st) \<le> j + ZOPFLI_MAX_MATCH
         then Inl OutOfBounds
         else fast_path_loop c inp inend symbolcost (k + 1) (i + 1) (j + 1)
                (st\<lparr>costs := (costs st)[j + ZOPFLI_MAX_MATCH :=
                              to_float (to_double (costs st ! j + symbolcost))],
                    length_array := (length_array st)[j + ZOPFLI_MAX_MATCH := ZOPFLI_MAX_MATCH],
                    hash := ZopfliUpdateHash c inp (i + 1) inend (hash st)\<rparr>))
      else Inr (i, j, st))"
  by pat_completeness auto
termination
  by (relation "measure (\<lambda>(c, inp, inend, symbolcost, k, i, j, st). ZOPFLI_MAX_MATCH - k)") auto

text \<open>
  The head of one round of the main loop: the hash is advanced to \<open>i\<close>, and the fast path
  runs when its condition holds.
\<close>

definition fast_path ::
  "'h collaborators \<Rightarrow> 8 word list \<Rightarrow> nat \<Rightarrow> nat \<Rightarrow> CostModelFun \<Rightarrow> nat \<Rightarrow> 'h dp_state
     \<Rightarrow> error + nat \<times> nat \<times> 'h dp_state" where
  "fast_path c inp instart inend costmodel i st =
     (let j = i - instart;
          st1 = st\<lparr>hash := ZopfliUpdateHash c inp i inend (hash st)\<rparr>;
          hsame = ZopfliHashSame c (hash st1)
      in if hsame (i AND ZOPFLI_WINDOW_MASK) > ZOPFLI_MAX_MATCH * 2
            \<and> i > instart + ZOPFLI_MAX_MATCH + 1
            \<and> i + ZOPFLI_MAX_MATCH * 2 + 1 < inend
            \<and> hsame ((i - ZOPFLI_MAX_MATCH) AND ZOPFLI_WINDOW_MASK) > ZOPFLI_MAX_MATCH
         then fast_path_loop c inp inend (costmodel ZOPFLI_MAX_MATCH 1) 0 i j st1
         else Inr (i, j, st1))"

text \<open>The literal edge from index \<open>j\<close>.  \<^verbatim>\<open>newCost\<close> is a \<^verbatim>\<open>double\<close>; it is compared
  with the \<^verbatim>\<open>float\<close> \<^verbatim>\<open>costs[j + 1]\<close> as it is, and converted when it is stored.\<close>

definition relax_literal ::
  "8 word list \<Rightarrow> nat \<Rightarrow> CostModelFun \<Rightarrow> nat \<Rightarrow> nat \<Rightarrow> 'h dp_state \<Rightarrow> error + 'h dp_state" where
  "relax_literal inp inend costmodel i j st =
     (if i + 1 \<le> inend then
        (if length inp \<le> i \<or> length (costs st) \<le> j + 1 then Inl OutOfBounds
         else
           (let newCost = to_double (costs st ! j + costmodel (unat (inp ! i)) 0) in
            if \<not> newCost \<ge> 0 then Inl (AssertionFailed ''newCost >= 0'')
            else if newCost < costs st ! (j + 1) then
              (if length (length_array st) \<le> j + 1 then Inl OutOfBounds
               else Inr (st\<lparr>costs := (costs st)[j + 1 := to_float newCost],
                            length_array := (length_array st)[j + 1 := 1]\<rparr>))
            else Inr st))
      else Inr st)"

text \<open>
  The body of the loop over the match lengths, for the length \<open>k\<close>.  The edge is skipped
  (\<^verbatim>\<open>continue\<close>) when it is pruned; the difference \<^verbatim>\<open>costs[j + k] - costs[j]\<close> of the
  test is a difference of \<^verbatim>\<open>float\<close>s, so it is rounded to \<^verbatim>\<open>float\<close>.  \<^verbatim>\<open>sublen\<close>
  has 259 entries.
\<close>

definition relax_length ::
  "CostModelFun \<Rightarrow> real \<Rightarrow> (nat \<Rightarrow> nat) \<Rightarrow> nat \<Rightarrow> nat \<Rightarrow> 'h dp_state \<Rightarrow> error + 'h dp_state" where
  "relax_length costmodel mincost sublen j k st =
     (if length (costs st) \<le> j + k then Inl OutOfBounds
      else if to_float (costs st ! (j + k) - costs st ! j) \<le> mincost then Inr st
      else if 259 \<le> k then Inl OutOfBounds
      else
        (let newCost = to_double (costs st ! j + costmodel k (sublen k)) in
         if \<not> newCost \<ge> 0 then Inl (AssertionFailed ''newCost >= 0'')
         else if newCost < costs st ! (j + k) then
           (if \<not> k \<le> ZOPFLI_MAX_MATCH then Inl (AssertionFailed ''k <= ZOPFLI_MAX_MATCH'')
            else if length (length_array st) \<le> j + k then Inl OutOfBounds
            else Inr (st\<lparr>costs := (costs st)[j + k := to_float newCost],
                         length_array := (length_array st)[j + k := k]\<rparr>))
         else Inr st))"

text \<open>The loop \<^verbatim>\<open>for (k = 3; k <= leng && i + k <= inend; k++)\<close>.\<close>

function relax_lengths ::
  "nat \<Rightarrow> CostModelFun \<Rightarrow> real \<Rightarrow> nat \<Rightarrow> (nat \<Rightarrow> nat) \<Rightarrow> nat \<Rightarrow> nat \<Rightarrow> nat \<Rightarrow> 'h dp_state
     \<Rightarrow> error + 'h dp_state" where
  "relax_lengths inend costmodel mincost leng sublen i j k st =
     (if k \<le> leng \<and> i + k \<le> inend then
        (case relax_length costmodel mincost sublen j k st of
           Inl e \<Rightarrow> Inl e
         | Inr st' \<Rightarrow> relax_lengths inend costmodel mincost leng sublen i j (k + 1) st')
      else Inr st)"
  by pat_completeness auto
termination
  by (relation "measure (\<lambda>(inend, costmodel, mincost, leng, sublen, i, j, k, st). leng + 1 - k)")
    auto

text \<open>
  One round of the main loop, from \<^verbatim>\<open>ZopfliUpdateHash\<close> to the end of the loop over the
  lengths.  It returns the position \<open>i\<close> the round ends at (the fast path advances it).
\<close>

definition GetBestLengths_round ::
  "'h collaborators \<Rightarrow> 8 word list \<Rightarrow> nat \<Rightarrow> nat \<Rightarrow> CostModelFun \<Rightarrow> real \<Rightarrow> nat \<Rightarrow> 'h dp_state
     \<Rightarrow> error + nat \<times> 'h dp_state" where
  "GetBestLengths_round c inp instart inend costmodel mincost i st =
     (case fast_path c inp instart inend costmodel i st of
        Inl e \<Rightarrow> Inl e
      | Inr (i, j, st) \<Rightarrow>
          (let (longest_match, sublen) =
                 ZopfliFindLongestMatch c (hash st) inp i inend ZOPFLI_MAX_MATCH;
               leng = length_lm longest_match
           in case relax_literal inp inend costmodel i j st of
                Inl e \<Rightarrow> Inl e
              | Inr st \<Rightarrow>
                  (case relax_lengths inend costmodel mincost leng sublen i j 3 st of
                     Inl e \<Rightarrow> Inl e
                   | Inr st \<Rightarrow> Inr (i, st))))"

text \<open>
  The main loop is \<^verbatim>\<open>for (i = instart; i < inend; i++)\<close>, whose body may advance
  \<open>i\<close> itself.  It terminates because a round never moves \<open>i\<close> backwards.
\<close>

declare fast_path_loop.simps [simp del]
declare relax_lengths.simps [simp del]

lemma fast_path_loop_index:
  "fast_path_loop c inp inend symbolcost k i j st = Inr (i', j', st') \<Longrightarrow>
     i' = i + (ZOPFLI_MAX_MATCH - k) \<and> j' = j + (ZOPFLI_MAX_MATCH - k)"
proof (induction c inp inend symbolcost k i j st rule: fast_path_loop.induct)
  case (1 c inp inend symbolcost k i j st)
  show ?case
  proof (cases "k < ZOPFLI_MAX_MATCH")
    case True
    with "1.prems" have nb: "\<not> (length (costs st) \<le> j + ZOPFLI_MAX_MATCH
            \<or> length (length_array st) \<le> j + ZOPFLI_MAX_MATCH)"
      by (auto simp: fast_path_loop.simps [of c inp inend symbolcost k i j st] split: if_splits)
    from "1.prems" True nb have "fast_path_loop c inp inend symbolcost (k + 1) (i + 1) (j + 1)
                (st\<lparr>costs := (costs st)[j + ZOPFLI_MAX_MATCH :=
                              to_float (to_double (costs st ! j + symbolcost))],
                    length_array := (length_array st)[j + ZOPFLI_MAX_MATCH := ZOPFLI_MAX_MATCH],
                    hash := ZopfliUpdateHash c inp (i + 1) inend (hash st)\<rparr>) = Inr (i', j', st')"
      by (simp add: fast_path_loop.simps [of c inp inend symbolcost k i j st])
    from "1.IH" [OF True nb this] True show ?thesis by arith
  next
    case False
    with "1.prems" show ?thesis
      by (simp add: fast_path_loop.simps [of c inp inend symbolcost k i j st])
  qed
qed

lemma fast_path_index:
  "fast_path c inp instart inend costmodel i st = Inr (i', j', st') \<Longrightarrow>
     i \<le> i' \<and> j' = i - instart + (i' - i) \<and> (i' = i \<or> i' = i + ZOPFLI_MAX_MATCH)"
  by (auto simp: fast_path_def Let_def split: if_splits dest!: fast_path_loop_index)

lemma GetBestLengths_round_advances:
  "GetBestLengths_round c inp instart inend costmodel mincost i st = Inr (i', st') \<Longrightarrow> i \<le> i'"
  by (auto simp: GetBestLengths_round_def Let_def split: sum.splits prod.splits
      dest: fast_path_index)

function GetBestLengths_loop ::
  "'h collaborators \<Rightarrow> 8 word list \<Rightarrow> nat \<Rightarrow> nat \<Rightarrow> CostModelFun \<Rightarrow> real \<Rightarrow> nat \<Rightarrow> 'h dp_state
     \<Rightarrow> error + 'h dp_state" where
  "GetBestLengths_loop c inp instart inend costmodel mincost i st =
     (if i < inend then
        (case GetBestLengths_round c inp instart inend costmodel mincost i st of
           Inl e \<Rightarrow> Inl e
         | Inr (i', st') \<Rightarrow> GetBestLengths_loop c inp instart inend costmodel mincost (i' + 1) st')
      else Inr st)"
  by pat_completeness auto
termination
proof (relation "measure (\<lambda>(c, inp, instart, inend, costmodel, mincost, i, st). inend - i)")
  show "wf (measure (\<lambda>(c, inp, instart, inend, costmodel, mincost, i, st). inend - i))"
    by simp
next
  fix c :: "'h collaborators" and inp instart inend costmodel mincost i
    and st :: "'h dp_state" and x2 i' st'
  assume "i < inend"
    and "GetBestLengths_round c inp instart inend costmodel mincost i st = Inr x2"
    and "(i', st') = x2"
  then have "i \<le> i'"
    using GetBestLengths_round_advances [of c inp instart inend costmodel mincost i st i' st']
    by simp
  with \<open>i < inend\<close>
  show "((c, inp, instart, inend, costmodel, mincost, i' + 1, st'),
         (c, inp, instart, inend, costmodel, mincost, i, st))
        \<in> measure (\<lambda>(c, inp, instart, inend, costmodel, mincost, i, st). inend - i)"
    by simp
qed

declare GetBestLengths_loop.simps [simp del]

text \<open>
  What \<^verbatim>\<open>GetBestLengths\<close> leaves behind: the value it returns and the final
  \<^verbatim>\<open>length_array\<close>.  The array \<^verbatim>\<open>costs\<close> is freed before the function returns; the
  model keeps its final contents (the empty list when it was never allocated) so that
  properties of it can be stated.
\<close>

record best_lengths =
  cost_returned :: real
  final_costs :: "real list"
  final_length_array :: "nat list"

text \<open>
  \<^verbatim>\<open>GetBestLengths\<close>.  The caller passes \<^verbatim>\<open>length_array\<close>; \<^verbatim>\<open>costs\<close> gets
  \<open>blocksize + 1\<close> entries, all \<^verbatim>\<open>ZOPFLI_LARGE_FLOAT\<close> (converted to \<^verbatim>\<open>float\<close>) but
  the first.  A block with
  \<open>inend < instart\<close> is outside the contract (\<^verbatim>\<open>blocksize\<close> would wrap around): the
  model reports it as an access out of bounds.
\<close>

definition GetBestLengths ::
  "'h collaborators \<Rightarrow> 8 word list \<Rightarrow> nat \<Rightarrow> nat \<Rightarrow> CostModelFun \<Rightarrow> nat list
     \<Rightarrow> error + best_lengths" where
  "GetBestLengths c inp instart inend costmodel la =
     (let blocksize = inend - instart;
          mincost = GetCostModelMinCost costmodel
      in if instart = inend then
           Inr \<lparr>cost_returned = 0, final_costs = [], final_length_array = la\<rparr>
         else if inend < instart \<or> la = [] then Inl OutOfBounds
         else
           (let h = warm_hash c inp instart inend;
                cs = (replicate (blocksize + 1) large_float)[0 := 0]
            in case GetBestLengths_loop c inp instart inend costmodel mincost instart
                      \<lparr>costs = cs, length_array = la[0 := 0], hash = h\<rparr> of
                 Inl e \<Rightarrow> Inl e
               | Inr st \<Rightarrow>
                   if \<not> costs st ! blocksize \<ge> 0
                   then Inl (AssertionFailed ''costs[blocksize] >= 0'')
                   else Inr \<lparr>cost_returned = costs st ! blocksize, final_costs = costs st,
                             final_length_array = length_array st\<rparr>))"

section \<open>TraceBackwards\<close>

text \<open>
  The loop \<^verbatim>\<open>for (;;)\<close> of \<^verbatim>\<open>TraceBackwards\<close>.  \<^verbatim>\<open>ZOPFLI_APPEND_DATA\<close> (a macro of
  \<^verbatim>\<open>util.h\<close>; modelled from the spec, which says it appends to the path) adds one
  element at the end.  The recursion goes on only when all three assertions hold, and then
  \<open>index\<close> decreases.
\<close>

function TraceBackwards_loop :: "nat list \<Rightarrow> nat \<Rightarrow> nat list \<Rightarrow> error + nat list" where
  "TraceBackwards_loop la index path =
     (if length la \<le> index then Inl OutOfBounds
      else if \<not> la ! index \<le> index
      then Inl (AssertionFailed ''length_array[index] <= index'')
      else if \<not> la ! index \<le> ZOPFLI_MAX_MATCH
      then Inl (AssertionFailed ''length_array[index] <= ZOPFLI_MAX_MATCH'')
      else if \<not> la ! index \<noteq> 0
      then Inl (AssertionFailed ''length_array[index] != 0'')
      else if index - la ! index = 0 then Inr (path @ [la ! index])
      else TraceBackwards_loop la (index - la ! index) (path @ [la ! index]))"
  by pat_completeness auto
termination
  by (relation "measure (\<lambda>(la, index, path). index)") auto

declare TraceBackwards_loop.simps [simp del]

text \<open>One round of the mirror loop: the elements at \<open>index\<close> and at
  \<open>pathsize - index - 1\<close> are exchanged.\<close>

definition mirror_step :: "nat list \<Rightarrow> nat \<Rightarrow> nat list" where
  "mirror_step path index =
     (let temp = path ! index;
          path1 = path[index := path ! (length path - index - 1)]
      in path1[length path - index - 1 := temp])"

definition mirror :: "nat list \<Rightarrow> nat list" where
  "mirror path = foldl mirror_step path [0..<length path div 2]"

definition TraceBackwards :: "nat \<Rightarrow> nat list \<Rightarrow> nat list \<Rightarrow> error + nat list" where
  "TraceBackwards size_b la path =
     (if size_b = 0 then Inr path
      else case TraceBackwards_loop la size_b path of
             Inl e \<Rightarrow> Inl e
           | Inr path' \<Rightarrow> Inr (mirror path'))"

section \<open>FollowPath\<close>

text \<open>
  Modelled from the spec: the LZ77 store and \<^verbatim>\<open>ZopfliStoreLitLenDist\<close>, which are not
  among the source files.  The store is an ordered sequence of symbols tagged with their
  byte offsets, and the replay appends to it.  An entry is \<open>(litlen, dist, pos)\<close>.
\<close>

type_synonym ZopfliLZ77Store = "(nat \<times> nat \<times> nat) list"

definition ZopfliStoreLitLenDist :: "nat \<Rightarrow> nat \<Rightarrow> nat \<Rightarrow> ZopfliLZ77Store \<Rightarrow> ZopfliLZ77Store" where
  "ZopfliStoreLitLenDist len dist_lm pos store = store @ [(len, dist_lm, pos)]"

text \<open>
  The loop of \<^verbatim>\<open>FollowPath\<close> over the path, \<open>len\<close> being \<^verbatim>\<open>path[i]\<close> and
  \<open>dist_lm\<close> being \<^verbatim>\<open>dist\<close>.  The counter \<^verbatim>\<open>total_length_test\<close> is written and never
  read, and is left out.
\<close>

fun FollowPath_loop ::
  "'h collaborators \<Rightarrow> 8 word list \<Rightarrow> nat \<Rightarrow> nat list \<Rightarrow> nat \<Rightarrow> 'h \<Rightarrow> ZopfliLZ77Store
     \<Rightarrow> error + ZopfliLZ77Store" where
  "FollowPath_loop c inp inend [] pos h store = Inr store"
| "FollowPath_loop c inp inend (len # path) pos h store =
     (if \<not> pos < inend then Inl (AssertionFailed ''pos < inend'')
      else
        (let h1 = ZopfliUpdateHash c inp pos inend h in
         case (if len \<ge> ZOPFLI_MIN_MATCH then
                 (let (longest_match, unused) = ZopfliFindLongestMatch c h1 inp pos inend len;
                      dist_lm = distance longest_match;
                      dummy_length = length_lm longest_match
                  in if \<not> \<not> (dummy_length \<noteq> len \<and> len > 2 \<and> dummy_length > 2)
                     then Inl (AssertionFailed
                            ''!(dummy_length != length && length > 2 && dummy_length > 2)'')
                     else if \<not> ZopfliVerifyLenDist c inp inend pos dist_lm len
                     then Inl (AssertionFailed ''ZopfliVerifyLenDist'')
                     else Inr (len, ZopfliStoreLitLenDist len dist_lm pos store))
               else if length inp \<le> pos then Inl OutOfBounds
               else Inr (1, ZopfliStoreLitLenDist (unat (inp ! pos)) 0 pos store)) of
           Inl e \<Rightarrow> Inl e
         | Inr (len, store') \<Rightarrow>
             if \<not> pos + len \<le> inend then Inl (AssertionFailed ''pos + length <= inend'')
             else FollowPath_loop c inp inend path (pos + len)
                    (foldl (\<lambda>h j. ZopfliUpdateHash c inp (pos + j) inend h) h1 [1..<len])
                    store'))"

definition FollowPath ::
  "'h collaborators \<Rightarrow> 8 word list \<Rightarrow> nat \<Rightarrow> nat \<Rightarrow> nat list \<Rightarrow> ZopfliLZ77Store
     \<Rightarrow> error + ZopfliLZ77Store" where
  "FollowPath c inp instart inend path store =
     (if instart = inend then Inr store
      else FollowPath_loop c inp inend path instart (warm_hash c inp instart inend) store)"

section \<open>LZ77OptimalRun\<close>

text \<open>What a run leaves behind: the cost it returns, the path, \<^verbatim>\<open>length_array\<close> and the
  store.\<close>

record optimal_run =
  run_cost :: real
  run_path :: "nat list"
  run_length_array :: "nat list"
  run_store :: ZopfliLZ77Store

definition LZ77OptimalRun ::
  "'h collaborators \<Rightarrow> 8 word list \<Rightarrow> nat \<Rightarrow> nat \<Rightarrow> nat list \<Rightarrow> CostModelFun \<Rightarrow> ZopfliLZ77Store
     \<Rightarrow> error + optimal_run" where
  "LZ77OptimalRun c inp instart inend la costmodel store =
     (case GetBestLengths c inp instart inend costmodel la of
        Inl e \<Rightarrow> Inl e
      | Inr r \<Rightarrow>
          (case TraceBackwards (inend - instart) (final_length_array r) [] of
             Inl e \<Rightarrow> Inl e
           | Inr path \<Rightarrow>
               (case FollowPath c inp instart inend path store of
                  Inl e \<Rightarrow> Inl e
                | Inr store' \<Rightarrow>
                    if \<not> cost_returned r < ZOPFLI_LARGE_FLOAT
                    then Inl (AssertionFailed ''cost < ZOPFLI_LARGE_FLOAT'')
                    else Inr \<lparr>run_cost = cost_returned r, run_path = path,
                              run_length_array = final_length_array r, run_store = store'\<rparr>)))"

section \<open>ZopfliLZ77Optimal and ZopfliLZ77OptimalFixed\<close>

text \<open>
  Modelled from the spec: the symbol statistics, the random generator, the greedy parser and
  the block-size estimate, which are not among the source files.  Statistics are values of
  an arbitrary type \<open>'s\<close>, the generator's state of a type \<open>'r\<close>; each function returns
  what the C function writes through its pointer.  \<^verbatim>\<open>CopyStats\<close> and
  \<^verbatim>\<open>ZopfliCopyLZ77Store\<close> copy their source into their destination, and
  \<^verbatim>\<open>ZopfliInitLZ77Store\<close> after \<^verbatim>\<open>ZopfliCleanLZ77Store\<close> leaves an empty store: these
  are assignments of the model.
\<close>

record ('s, 'r) statistics =
  symbol_stats_new :: 's
  ran_state_new :: 'r
  ZopfliLZ77Greedy :: "8 word list \<Rightarrow> nat \<Rightarrow> nat \<Rightarrow> ZopfliLZ77Store \<Rightarrow> ZopfliLZ77Store"
  GetStatistics :: "ZopfliLZ77Store \<Rightarrow> 's \<Rightarrow> 's"
  GetCostStat :: "'s \<Rightarrow> CostModelFun"
  GetCostFixed :: CostModelFun
  ZopfliCalculateBlockSize :: "ZopfliLZ77Store \<Rightarrow> nat \<Rightarrow> nat \<Rightarrow> nat \<Rightarrow> real"
  ClearStatFreqs :: "'s \<Rightarrow> 's"
  AddWeighedStatFreqs :: "'s \<Rightarrow> real \<Rightarrow> 's \<Rightarrow> real \<Rightarrow> 's"
  CalculateStatistics :: "'s \<Rightarrow> 's"
  RandomizeStatFreqs :: "'r \<Rightarrow> 's \<Rightarrow> 'r \<times> 's"

text \<open>The variables of \<^verbatim>\<open>ZopfliLZ77Optimal\<close>; \<open>store\<close> is the caller's output store.\<close>

record ('s, 'r) optimal_state =
  currentstore :: ZopfliLZ77Store
  store :: ZopfliLZ77Store
  stats :: 's
  beststats :: 's
  laststats :: 's
  bestcost :: real
  lastcost :: real
  lastrandomstep :: int
  ran_state :: 'r
  path :: "nat list"
  length_array_buffer :: "nat list"

text \<open>
  The body of the loop \<^verbatim>\<open>for (i = 0; i < numiterations; i++)\<close>, statement by statement.
  First \<^verbatim>\<open>if (cost < bestcost)\<close>, which copies the current store to the output store
  and the statistics to \<^verbatim>\<open>beststats\<close>.
\<close>

definition retain_best :: "real \<Rightarrow> ('s, 'r) optimal_state \<Rightarrow> ('s, 'r) optimal_state" where
  "retain_best cost st =
     (if cost < bestcost st
      then st\<lparr>store := currentstore st, beststats := stats st, bestcost := cost\<rparr>
      else st)"

text \<open>\<^verbatim>\<open>CopyStats(stats, laststats); ClearStatFreqs(stats); GetStatistics(&currentstore,
  stats)\<close>.\<close>

definition renew_stats :: "('s, 'r) statistics \<Rightarrow> ('s, 'r) optimal_state \<Rightarrow> ('s, 'r) optimal_state" where
  "renew_stats t st =
     st\<lparr>laststats := stats st,
        stats := GetStatistics t (currentstore st) (ClearStatFreqs t (stats st))\<rparr>"

text \<open>\<^verbatim>\<open>if (lastrandomstep != -1)\<close>: the statistics are blended with the last ones.\<close>

definition blend_stats :: "('s, 'r) statistics \<Rightarrow> ('s, 'r) optimal_state \<Rightarrow> ('s, 'r) optimal_state" where
  "blend_stats t st =
     (if lastrandomstep st \<noteq> - 1
      then st\<lparr>stats := CalculateStatistics t
                  (AddWeighedStatFreqs t (stats st) 1.0 (laststats st) 0.5)\<rparr>
      else st)"

text \<open>\<^verbatim>\<open>if (i > 5 && cost == lastcost)\<close>: the best statistics are randomized.\<close>

definition randomize_stats ::
  "('s, 'r) statistics \<Rightarrow> int \<Rightarrow> real \<Rightarrow> ('s, 'r) optimal_state \<Rightarrow> ('s, 'r) optimal_state" where
  "randomize_stats t i cost st =
     (if i > 5 \<and> cost = lastcost st
      then (let (ran, randomized) = RandomizeStatFreqs t (ran_state st) (beststats st)
            in st\<lparr>stats := CalculateStatistics t randomized, ran_state := ran,
                   lastrandomstep := i\<rparr>)
      else st)"

text \<open>
  The whole body: the run into the emptied \<^verbatim>\<open>currentstore\<close>, the true cost of its
  parse, and the four steps above.  The messages written to \<^verbatim>\<open>stderr\<close> are not part of
  the model.
\<close>

definition ZopfliLZ77Optimal_round ::
  "'h collaborators \<Rightarrow> ('s, 'r) statistics \<Rightarrow> 8 word list \<Rightarrow> nat \<Rightarrow> nat \<Rightarrow> int
     \<Rightarrow> ('s, 'r) optimal_state \<Rightarrow> error + ('s, 'r) optimal_state" where
  "ZopfliLZ77Optimal_round c t inp instart inend i st =
     (case LZ77OptimalRun c inp instart inend (length_array_buffer st)
             (GetCostStat t (stats st)) [] of
        Inl e \<Rightarrow> Inl e
      | Inr r \<Rightarrow>
          (let st1 = st\<lparr>currentstore := run_store r, path := run_path r,
                        length_array_buffer := run_length_array r\<rparr>;
               cost = ZopfliCalculateBlockSize t (currentstore st1) 0
                        (length (currentstore st1)) 2
           in Inr ((randomize_stats t i cost (blend_stats t (renew_stats t
                      (retain_best cost st1))))\<lparr>lastcost := cost\<rparr>)))"

function ZopfliLZ77Optimal_loop ::
  "'h collaborators \<Rightarrow> ('s, 'r) statistics \<Rightarrow> 8 word list \<Rightarrow> nat \<Rightarrow> nat \<Rightarrow> int \<Rightarrow> int
     \<Rightarrow> ('s, 'r) optimal_state \<Rightarrow> error + ('s, 'r) optimal_state" where
  "ZopfliLZ77Optimal_loop c t inp instart inend numiterations i st =
     (if i < numiterations then
        (case ZopfliLZ77Optimal_round c t inp instart inend i st of
           Inl e \<Rightarrow> Inl e
         | Inr st' \<Rightarrow> ZopfliLZ77Optimal_loop c t inp instart inend numiterations (i + 1) st')
      else Inr st)"
  by pat_completeness auto
termination
  by (relation "measure (\<lambda>(c, t, inp, instart, inend, numiterations, i, st).
        nat (numiterations - i))") auto

declare ZopfliLZ77Optimal_loop.simps [simp del]

text \<open>
  \<^verbatim>\<open>ZopfliLZ77Optimal\<close>, from the initial greedy run to the end of the loop.  The C
  function returns nothing and leaves its result in \<open>store\<close>; the model returns all its
  variables as they are when the loop ends.  \<open>la\<close> is the content of the freshly allocated
  \<^verbatim>\<open>length_array\<close>, which \<^verbatim>\<open>malloc\<close> leaves unspecified.
\<close>

definition ZopfliLZ77Optimal ::
  "'h collaborators \<Rightarrow> ('s, 'r) statistics \<Rightarrow> 8 word list \<Rightarrow> nat \<Rightarrow> nat \<Rightarrow> int \<Rightarrow> nat list
     \<Rightarrow> ZopfliLZ77Store \<Rightarrow> error + ('s, 'r) optimal_state" where
  "ZopfliLZ77Optimal c t inp instart inend numiterations la store0 =
     (let greedy = ZopfliLZ77Greedy t inp instart inend []
      in ZopfliLZ77Optimal_loop c t inp instart inend numiterations 0
           \<lparr>currentstore = greedy, store = store0,
            stats = GetStatistics t greedy (symbol_stats_new t),
            beststats = symbol_stats_new t, laststats = symbol_stats_new t,
            bestcost = ZOPFLI_LARGE_FLOAT, lastcost = 0, lastrandomstep = - 1,
            ran_state = ran_state_new t, path = [], length_array_buffer = la\<rparr>)"

text \<open>
  \<^verbatim>\<open>ZopfliLZ77OptimalFixed\<close>: one run with the fixed cost model.  The fields
  \<^verbatim>\<open>blockstart\<close> and \<^verbatim>\<open>blockend\<close> it sets in the block state are read by the
  collaborators only.
\<close>

definition ZopfliLZ77OptimalFixed ::
  "'h collaborators \<Rightarrow> ('s, 'r) statistics \<Rightarrow> 8 word list \<Rightarrow> nat \<Rightarrow> nat \<Rightarrow> nat list
     \<Rightarrow> ZopfliLZ77Store \<Rightarrow> error + ZopfliLZ77Store" where
  "ZopfliLZ77OptimalFixed c t inp instart inend la store0 =
     (case LZ77OptimalRun c inp instart inend la (GetCostFixed t) store0 of
        Inl e \<Rightarrow> Inl e
      | Inr r \<Rightarrow> Inr (run_store r))"

section \<open>A worked example: the block "abcabc"\<close>

text \<open>
  Stand-ins for the collaborators on the six bytes \<^verbatim>\<open>abcabc\<close>, used to run the
  functions above on a concrete block.  The hash is the number of the next position; the
  only match is the one of length 3 and distance 3 at position 3.  A literal costs 8 bits
  and a match 12.
\<close>

definition ex_c :: "nat collaborators" where
  "ex_c = \<lparr>ZopfliInitHash = (\<lambda>w. 0), ZopfliWarmupHash = (\<lambda>inp ws e h. h),
     ZopfliUpdateHash = (\<lambda>inp i e h. i + 1), ZopfliHashSame = (\<lambda>h idx. 0),
     ZopfliFindLongestMatch = (\<lambda>h inp i e limit.
        if h = 4 \<and> i = 3 then (\<lparr>distance = 3, length_lm = min limit 3\<rparr>, (\<lambda>k. 3))
        else (\<lparr>distance = 0, length_lm = 0\<rparr>, (\<lambda>k. 0))),
     ZopfliVerifyLenDist = (\<lambda>inp e pos d l. True)\<rparr>"

definition ex_cm :: CostModelFun where
  "ex_cm l d = (if d = 0 then 8 else 12)"

definition ex_abc :: "8 word list" where
  "ex_abc = [97, 98, 99, 97, 98, 99]"

definition ex_la :: "nat list" where
  "ex_la = [7, 7, 7, 7, 7, 7, 7]"

text \<open>
  Stand-ins for the statistics: the greedy parser emits literals only, the statistics
  count symbols, and a block costs 9 bits a symbol.
\<close>

definition ex_t :: "(nat, nat) statistics" where
  "ex_t = \<lparr>symbol_stats_new = 0, ran_state_new = 1,
     ZopfliLZ77Greedy = (\<lambda>inp instart inend store.
        store @ map (\<lambda>p. (unat (inp ! p), 0, p)) [instart..<inend]),
     GetStatistics = (\<lambda>store s. s + length store),
     GetCostStat = (\<lambda>s. ex_cm),
     GetCostFixed = ex_cm,
     ZopfliCalculateBlockSize = (\<lambda>store a b btype. 9 * real (b - a)),
     ClearStatFreqs = (\<lambda>s. 0),
     AddWeighedStatFreqs = (\<lambda>s1 w1 s2 w2. s1),
     CalculateStatistics = (\<lambda>s. s),
     RandomizeStatFreqs = (\<lambda>r s. (r + 1, s + r))\<rparr>"

text \<open>The variables of \<^verbatim>\<open>ZopfliLZ77Optimal\<close> before the first round and after it.\<close>

definition ex_st0 :: "(nat, nat) optimal_state" where
  "ex_st0 = \<lparr>currentstore =
                [(97, 0, 0), (98, 0, 1), (99, 0, 2), (97, 0, 3), (98, 0, 4), (99, 0, 5)],
      store = [], stats = 6, beststats = 0, laststats = 0, bestcost = ZOPFLI_LARGE_FLOAT,
      lastcost = 0, lastrandomstep = - 1, ran_state = 1, path = [],
      length_array_buffer = ex_la\<rparr>"

definition ex_st1 :: "(nat, nat) optimal_state" where
  "ex_st1 = \<lparr>currentstore = [(97, 0, 0), (98, 0, 1), (99, 0, 2), (3, 3, 3)],
      store = [(97, 0, 0), (98, 0, 1), (99, 0, 2), (3, 3, 3)], stats = 4, beststats = 6,
      laststats = 6, bestcost = 36, lastcost = 36, lastrandomstep = - 1, ran_state = 1,
      path = [1, 1, 1, 3], length_array_buffer = [0, 1, 1, 1, 1, 1, 3]\<rparr>"

lemma ex_replicate:
  "(replicate (6 - 0 + 1) large_float)[0 := 0] =
     [0, large_float, large_float, large_float, large_float, large_float, large_float]"
  by (simp add: eval_nat_numeral)

lemma ex_warm: "warm_hash ex_c ex_abc 0 6 = 0"
  by (simp add: warm_hash_def ZOPFLI_WINDOW_SIZE_def ex_c_def)

lemma ex_mincost: "GetCostModelMinCost ex_cm = 12"
  by (simp add: GetCostModelMinCost_def dsymbols_def ex_cm_def ZOPFLI_LARGE_FLOAT_value
      upt_rec [of _ "numeral _"])

lemma ex_GetBestLengths:
  "GetBestLengths ex_c ex_abc 0 6 ex_cm ex_la =
     Inr \<lparr>cost_returned = 36, final_costs = [0, 8, 16, 24, 32, 40, 36],
          final_length_array = [0, 1, 1, 1, 1, 1, 3]\<rparr>"
  unfolding GetBestLengths_def Let_def ex_mincost ex_warm ex_replicate
  by (simp add: ex_la_def GetBestLengths_loop.simps GetBestLengths_round_def fast_path_def
      relax_literal_def relax_lengths.simps relax_length_def ex_c_def ex_cm_def ex_abc_def
      round_numeral round_large ZOPFLI_MAX_MATCH_def ZOPFLI_WINDOW_MASK_def Let_def)

lemma ex_TraceBackwards: "TraceBackwards 6 [0, 1, 1, 1, 1, 1, 3] [] = Inr [1, 1, 1, 3]"
  by (simp add: TraceBackwards_def TraceBackwards_loop.simps mirror_def mirror_step_def
      ZOPFLI_MAX_MATCH_def upt_rec [of _ "numeral _"])

lemma ex_FollowPath:
  "FollowPath ex_c ex_abc 0 6 [1, 1, 1, 3] [] =
     Inr [(97, 0, 0), (98, 0, 1), (99, 0, 2), (3, 3, 3)]"
  by (simp add: FollowPath_def ex_warm)
     (simp add: ZopfliStoreLitLenDist_def ZOPFLI_MIN_MATCH_def ex_c_def ex_abc_def
       upt_rec [of _ "numeral _"])

lemma ex_LZ77OptimalRun:
  "LZ77OptimalRun ex_c ex_abc 0 6 ex_la ex_cm [] =
     Inr \<lparr>run_cost = 36, run_path = [1, 1, 1, 3],
          run_length_array = [0, 1, 1, 1, 1, 1, 3],
          run_store = [(97, 0, 0), (98, 0, 1), (99, 0, 2), (3, 3, 3)]\<rparr>"
  by (simp add: LZ77OptimalRun_def ex_GetBestLengths ex_TraceBackwards [simplified]
      ex_FollowPath [simplified] ZOPFLI_LARGE_FLOAT_value)

lemma ex_round: "ZopfliLZ77Optimal_round ex_c ex_t ex_abc 0 6 0 ex_st0 = Inr ex_st1"
proof -
  have "GetCostStat ex_t (stats ex_st0) = ex_cm" "length_array_buffer ex_st0 = ex_la"
    by (simp_all add: ex_t_def ex_st0_def)
  then show ?thesis
    by (simp add: ZopfliLZ77Optimal_round_def ex_LZ77OptimalRun)
       (simp add: ex_st0_def ex_st1_def ex_t_def retain_best_def renew_stats_def
         blend_stats_def randomize_stats_def ZOPFLI_LARGE_FLOAT_value)
qed

lemma ex_init:
  "ZopfliLZ77Optimal ex_c ex_t ex_abc 0 6 n ex_la [] =
     ZopfliLZ77Optimal_loop ex_c ex_t ex_abc 0 6 n 0 ex_st0"
proof -
  have "\<lparr>currentstore = ZopfliLZ77Greedy ex_t ex_abc 0 6 [], store = [],
          stats = GetStatistics ex_t (ZopfliLZ77Greedy ex_t ex_abc 0 6 []) (symbol_stats_new ex_t),
          beststats = symbol_stats_new ex_t, laststats = symbol_stats_new ex_t,
          bestcost = ZOPFLI_LARGE_FLOAT, lastcost = 0, lastrandomstep = - 1,
          ran_state = ran_state_new ex_t, path = [], length_array_buffer = ex_la\<rparr> = ex_st0"
    by (simp add: ex_st0_def ex_t_def ex_abc_def upt_rec [of _ "numeral _"])
  then show ?thesis
    by (simp only: ZopfliLZ77Optimal_def Let_def)
qed

section \<open>The empty block\<close>

text \<open>
  C9.  When \<open>instart = inend\<close> the core does no work.  \<^verbatim>\<open>GetBestLengths\<close> returns 0,
  its array \<^verbatim>\<open>costs\<close> is never allocated and \<^verbatim>\<open>length_array\<close> is as the caller
  passed it; \<^verbatim>\<open>TraceBackwards\<close> on size 0 returns the empty path; \<^verbatim>\<open>FollowPath\<close>
  returns the store as it got it.  So a run reports cost 0 and leaves the store unchanged,
  and \<^verbatim>\<open>ZopfliLZ77OptimalFixed\<close> leaves an empty store empty.
\<close>

theorem empty_block_no_work:
  "GetBestLengths c inp instart instart costmodel la =
     Inr \<lparr>cost_returned = 0, final_costs = [], final_length_array = la\<rparr>
   \<and> TraceBackwards 0 la [] = Inr []
   \<and> FollowPath c inp instart instart [] store0 = Inr store0
   \<and> LZ77OptimalRun c inp instart instart la costmodel store0 =
       Inr \<lparr>run_cost = 0, run_path = [], run_length_array = la, run_store = store0\<rparr>
   \<and> ZopfliLZ77OptimalFixed c t inp instart instart la [] = Inr []"
  by (simp add: GetBestLengths_def TraceBackwards_def FollowPath_def LZ77OptimalRun_def
      ZopfliLZ77OptimalFixed_def ZOPFLI_LARGE_FLOAT_value)

section \<open>The retained best of ZopfliLZ77Optimal\<close>

lemma randomize_stats_keeps [simp]:
  "store (randomize_stats t i cost st) = store st"
  "beststats (randomize_stats t i cost st) = beststats st"
  "bestcost (randomize_stats t i cost st) = bestcost st"
  "currentstore (randomize_stats t i cost st) = currentstore st"
  by (simp_all add: randomize_stats_def split: prod.splits)

lemma blend_stats_keeps [simp]:
  "store (blend_stats t st) = store st"
  "beststats (blend_stats t st) = beststats st"
  "bestcost (blend_stats t st) = bestcost st"
  "currentstore (blend_stats t st) = currentstore st"
  by (simp_all add: blend_stats_def)

lemma renew_stats_keeps [simp]:
  "store (renew_stats t st) = store st"
  "beststats (renew_stats t st) = beststats st"
  "bestcost (renew_stats t st) = bestcost st"
  "currentstore (renew_stats t st) = currentstore st"
  by (simp_all add: renew_stats_def)

lemma retain_best_fields [simp]:
  "store (retain_best cost st) = (if cost < bestcost st then currentstore st else store st)"
  "beststats (retain_best cost st) = (if cost < bestcost st then stats st else beststats st)"
  "bestcost (retain_best cost st) = (if cost < bestcost st then cost else bestcost st)"
  "currentstore (retain_best cost st) = currentstore st"
  by (simp_all add: retain_best_def)

lemma ZopfliLZ77Optimal_round_best:
  assumes "ZopfliLZ77Optimal_round c t inp instart inend i st = Inr st'"
  shows "lastcost st' =
           ZopfliCalculateBlockSize t (currentstore st') 0 (length (currentstore st')) 2
    \<and> (lastcost st' < bestcost st \<longrightarrow>
           store st' = currentstore st' \<and> beststats st' = stats st
           \<and> bestcost st' = lastcost st')
    \<and> (\<not> lastcost st' < bestcost st \<longrightarrow>
           store st' = store st \<and> beststats st' = beststats st
           \<and> bestcost st' = bestcost st)"
proof (cases "LZ77OptimalRun c inp instart inend (length_array_buffer st)
             (GetCostStat t (stats st)) []")
  case (Inl e)
  with assms show ?thesis by (simp add: ZopfliLZ77Optimal_round_def)
next
  case (Inr r)
  from assms have "st' = projr (ZopfliLZ77Optimal_round c t inp instart inend i st)"
    by simp
  then show ?thesis
    by (simp add: ZopfliLZ77Optimal_round_def Inr Let_def)
qed

lemma ZopfliLZ77Optimal_loop_done:
  "ZopfliLZ77Optimal_loop c t inp instart inend k k st = Inr st"
  by (simp add: ZopfliLZ77Optimal_loop.simps [of c t inp instart inend k k st])

lemma ZopfliLZ77Optimal_loop_step:
  "i < n \<Longrightarrow> ZopfliLZ77Optimal_loop c t inp instart inend n i st =
     (case ZopfliLZ77Optimal_round c t inp instart inend i st of
        Inl e \<Rightarrow> Inl e
      | Inr st' \<Rightarrow> ZopfliLZ77Optimal_loop c t inp instart inend n (i + 1) st')"
  by (simp add: ZopfliLZ77Optimal_loop.simps [of c t inp instart inend n i st])

text \<open>
  A run of the loop up to \<open>n\<close> passes through the state that the loop up to \<open>k\<close>
  returns, for every \<open>k\<close> between \<open>i\<close> and \<open>n\<close>: the rounds are the same, since a
  round depends on the iteration count through \<open>i < numiterations\<close> only.
\<close>

lemma ZopfliLZ77Optimal_loop_split:
  assumes "ZopfliLZ77Optimal_loop c t inp instart inend n i st = Inr st'"
    and "i \<le> k" and "k \<le> n"
  shows "\<exists>s. ZopfliLZ77Optimal_loop c t inp instart inend k i st = Inr s
     \<and> ZopfliLZ77Optimal_loop c t inp instart inend n k s = Inr st'"
  using assms
proof (induction c t inp instart inend n i st rule: ZopfliLZ77Optimal_loop.induct)
  case (1 c t inp instart inend n i st)
  show ?case
  proof (cases "i = k")
    case True
    with "1.prems"(1) show ?thesis by (simp add: ZopfliLZ77Optimal_loop_done)
  next
    case False
    with "1.prems"(2,3) have lt: "i < k" "i < n" by simp_all
    with "1.prems"(1) obtain st1 where
      r: "ZopfliLZ77Optimal_round c t inp instart inend i st = Inr st1" and
      l: "ZopfliLZ77Optimal_loop c t inp instart inend n (i + 1) st1 = Inr st'"
      by (auto simp: ZopfliLZ77Optimal_loop_step split: sum.splits)
    from lt(1) have "i + 1 \<le> k" by simp
    from "1.IH" [OF lt(2) r l this "1.prems"(3)] obtain s where
      "ZopfliLZ77Optimal_loop c t inp instart inend k (i + 1) st1 = Inr s"
      "ZopfliLZ77Optimal_loop c t inp instart inend n k s = Inr st'"
      by blast
    with r lt(1) show ?thesis by (simp add: ZopfliLZ77Optimal_loop_step)
  qed
qed

lemma ZopfliLZ77Optimal_loop_extend:
  assumes "ZopfliLZ77Optimal_loop c t inp instart inend k i st = Inr s"
    and "i \<le> k" and "k \<le> n"
  shows "ZopfliLZ77Optimal_loop c t inp instart inend n i st =
         ZopfliLZ77Optimal_loop c t inp instart inend n k s"
  using assms
proof (induction c t inp instart inend k i st rule: ZopfliLZ77Optimal_loop.induct)
  case (1 c t inp instart inend k i st)
  show ?case
  proof (cases "i = k")
    case True
    with "1.prems"(1) show ?thesis by (simp add: ZopfliLZ77Optimal_loop_done)
  next
    case False
    with "1.prems"(2,3) have lt: "i < k" "i < n" by simp_all
    with "1.prems"(1) obtain st1 where
      r: "ZopfliLZ77Optimal_round c t inp instart inend i st = Inr st1" and
      l: "ZopfliLZ77Optimal_loop c t inp instart inend k (i + 1) st1 = Inr s"
      by (auto simp: ZopfliLZ77Optimal_loop_step split: sum.splits)
    from lt(1) have "i + 1 \<le> k" by simp
    from "1.IH" [OF lt(1) r l this "1.prems"(3)] r lt(2) show ?thesis
      by (simp add: ZopfliLZ77Optimal_loop_step)
  qed
qed

text \<open>Iteration \<open>k\<close> of a run with \<open>n\<close> iterations: the state before it is what the run
  with \<open>k\<close> iterations returns, the state after it what the run with \<open>k + 1\<close> returns.\<close>

lemma ZopfliLZ77Optimal_loop_iteration:
  assumes "ZopfliLZ77Optimal_loop c t inp instart inend n i st = Inr st'"
    and "i \<le> k" and "k < n"
  shows "\<exists>s s1. ZopfliLZ77Optimal_loop c t inp instart inend k i st = Inr s
     \<and> ZopfliLZ77Optimal_round c t inp instart inend k s = Inr s1
     \<and> ZopfliLZ77Optimal_loop c t inp instart inend (k + 1) i st = Inr s1
     \<and> ZopfliLZ77Optimal_loop c t inp instart inend n (k + 1) s1 = Inr st'"
proof -
  from assms(3) have kn: "k \<le> n" by simp
  from ZopfliLZ77Optimal_loop_split [OF assms(1,2) kn] obtain s where
    s: "ZopfliLZ77Optimal_loop c t inp instart inend k i st = Inr s"
    and l: "ZopfliLZ77Optimal_loop c t inp instart inend n k s = Inr st'"
    by blast
  from l assms(3) obtain s1 where
    r: "ZopfliLZ77Optimal_round c t inp instart inend k s = Inr s1" and
    l1: "ZopfliLZ77Optimal_loop c t inp instart inend n (k + 1) s1 = Inr st'"
    by (auto simp: ZopfliLZ77Optimal_loop_step split: sum.splits)
  have "k \<le> k + 1" by simp
  from ZopfliLZ77Optimal_loop_extend [OF s assms(2) this] r
  have "ZopfliLZ77Optimal_loop c t inp instart inend (k + 1) i st = Inr s1"
    by (simp add: ZopfliLZ77Optimal_loop_step ZopfliLZ77Optimal_loop_done)
  with s r l1 show ?thesis by blast
qed

text \<open>
  C7.  Take a run of \<^verbatim>\<open>ZopfliLZ77Optimal\<close> with \<open>n\<close> iterations that returns.  For
  every iteration \<open>k\<close> of it (\<open>0 \<le> k < n\<close>), the state before the iteration is what the
  run with \<open>k\<close> iterations returns and the state after it what the run with \<open>k + 1\<close>
  iterations returns; the iteration is one round of the loop, and the cost it compares
  with \<^verbatim>\<open>bestcost\<close> is the block size of its parse.  When that cost is strictly less
  than the \<^verbatim>\<open>bestcost\<close> before the iteration, the output store becomes the current
  store, \<^verbatim>\<open>beststats\<close> the statistics the iteration ran with and \<^verbatim>\<open>bestcost\<close> that
  cost; otherwise all three are unchanged.  With \<open>n \<le> 0\<close> the run returns with the
  output store as the caller passed it and \<^verbatim>\<open>bestcost\<close> still \<^verbatim>\<open>ZOPFLI_LARGE_FLOAT\<close>.
  The same rule holds for a round from any state.
\<close>

theorem best_updated_iff_cost_improves:
  "(ZopfliLZ77Optimal c t inp instart inend n la store0 = Inr st' \<longrightarrow>
      (n \<le> 0 \<longrightarrow> store st' = store0 \<and> bestcost st' = ZOPFLI_LARGE_FLOAT
          \<and> beststats st' = symbol_stats_new t)
      \<and> (\<forall>k. 0 \<le> k \<and> k < n \<longrightarrow>
           (\<exists>s s1. ZopfliLZ77Optimal c t inp instart inend k la store0 = Inr s
              \<and> ZopfliLZ77Optimal c t inp instart inend (k + 1) la store0 = Inr s1
              \<and> ZopfliLZ77Optimal_round c t inp instart inend k s = Inr s1
              \<and> lastcost s1 =
                  ZopfliCalculateBlockSize t (currentstore s1) 0 (length (currentstore s1)) 2
              \<and> (lastcost s1 < bestcost s \<longrightarrow>
                   store s1 = currentstore s1 \<and> beststats s1 = stats s
                   \<and> bestcost s1 = lastcost s1)
              \<and> (\<not> lastcost s1 < bestcost s \<longrightarrow>
                   store s1 = store s \<and> beststats s1 = beststats s
                   \<and> bestcost s1 = bestcost s))))
   \<and> (ZopfliLZ77Optimal_round c t inp instart inend i st = Inr st1 \<longrightarrow>
      lastcost st1 =
        ZopfliCalculateBlockSize t (currentstore st1) 0 (length (currentstore st1)) 2
      \<and> (lastcost st1 < bestcost st \<longrightarrow>
           store st1 = currentstore st1 \<and> beststats st1 = stats st
           \<and> bestcost st1 = lastcost st1)
      \<and> (\<not> lastcost st1 < bestcost st \<longrightarrow>
           store st1 = store st \<and> beststats st1 = beststats st
           \<and> bestcost st1 = bestcost st))
   \<and> (\<exists>st0. ZopfliLZ77Optimal c t inp instart inend 0 la store0 = Inr st0
          \<and> store st0 = store0 \<and> bestcost st0 = ZOPFLI_LARGE_FLOAT
          \<and> beststats st0 = symbol_stats_new t)"
proof -
  have iteration: "\<exists>s s1. ZopfliLZ77Optimal c t inp instart inend k la store0 = Inr s
              \<and> ZopfliLZ77Optimal c t inp instart inend (k + 1) la store0 = Inr s1
              \<and> ZopfliLZ77Optimal_round c t inp instart inend k s = Inr s1
              \<and> lastcost s1 =
                  ZopfliCalculateBlockSize t (currentstore s1) 0 (length (currentstore s1)) 2
              \<and> (lastcost s1 < bestcost s \<longrightarrow>
                   store s1 = currentstore s1 \<and> beststats s1 = stats s
                   \<and> bestcost s1 = lastcost s1)
              \<and> (\<not> lastcost s1 < bestcost s \<longrightarrow>
                   store s1 = store s \<and> beststats s1 = beststats s
                   \<and> bestcost s1 = bestcost s)"
    if run: "ZopfliLZ77Optimal c t inp instart inend n la store0 = Inr st'"
      and k0: "0 \<le> k" and kn: "k < n" for k
  proof -
    from ZopfliLZ77Optimal_loop_iteration [OF run [unfolded ZopfliLZ77Optimal_def Let_def] k0 kn]
    obtain s s1 where
      "ZopfliLZ77Optimal c t inp instart inend k la store0 = Inr s"
      "ZopfliLZ77Optimal_round c t inp instart inend k s = Inr s1"
      "ZopfliLZ77Optimal c t inp instart inend (k + 1) la store0 = Inr s1"
      unfolding ZopfliLZ77Optimal_def Let_def by blast
    with ZopfliLZ77Optimal_round_best [OF this(2)] show ?thesis by blast
  qed
  have none: "store st' = store0 \<and> bestcost st' = ZOPFLI_LARGE_FLOAT
          \<and> beststats st' = symbol_stats_new t"
    if "ZopfliLZ77Optimal c t inp instart inend n la store0 = Inr st'" and "n \<le> 0"
    using that
    by (auto simp: ZopfliLZ77Optimal_def Let_def
        ZopfliLZ77Optimal_loop.simps [of _ _ _ _ _ n 0])
  have zero: "\<exists>st0. ZopfliLZ77Optimal c t inp instart inend 0 la store0 = Inr st0
          \<and> store st0 = store0 \<and> bestcost st0 = ZOPFLI_LARGE_FLOAT
          \<and> beststats st0 = symbol_stats_new t"
    by (simp add: ZopfliLZ77Optimal_def Let_def ZopfliLZ77Optimal_loop.simps [of _ _ _ _ _ 0 0])
  from iteration none zero ZopfliLZ77Optimal_round_best [of c t inp instart inend i st st1]
  show ?thesis by blast
qed

text \<open>The state after the second round on \<^verbatim>\<open>abcabc\<close>: the round finds the same parse
  at the same cost, so only \<^verbatim>\<open>laststats\<close> changes.\<close>

definition ex_st2 :: "(nat, nat) optimal_state" where
  "ex_st2 = ex_st1\<lparr>laststats := 4\<rparr>"

lemma ex_GetBestLengths_again:
  "GetBestLengths ex_c ex_abc 0 6 ex_cm [0, 1, 1, 1, 1, 1, 3] =
     Inr \<lparr>cost_returned = 36, final_costs = [0, 8, 16, 24, 32, 40, 36],
          final_length_array = [0, 1, 1, 1, 1, 1, 3]\<rparr>"
  unfolding GetBestLengths_def Let_def ex_mincost ex_warm ex_replicate
  by (simp add: GetBestLengths_loop.simps GetBestLengths_round_def fast_path_def
      relax_literal_def relax_lengths.simps relax_length_def ex_c_def ex_cm_def ex_abc_def
      round_numeral round_large ZOPFLI_MAX_MATCH_def ZOPFLI_WINDOW_MASK_def Let_def)

lemma ex_LZ77OptimalRun_again:
  "LZ77OptimalRun ex_c ex_abc 0 6 [0, 1, 1, 1, 1, 1, 3] ex_cm [] =
     Inr \<lparr>run_cost = 36, run_path = [1, 1, 1, 3],
          run_length_array = [0, 1, 1, 1, 1, 1, 3],
          run_store = [(97, 0, 0), (98, 0, 1), (99, 0, 2), (3, 3, 3)]\<rparr>"
  by (simp add: LZ77OptimalRun_def ex_GetBestLengths_again [simplified] ex_TraceBackwards [simplified]
      ex_FollowPath [simplified] ZOPFLI_LARGE_FLOAT_value)

lemma ex_round_again: "ZopfliLZ77Optimal_round ex_c ex_t ex_abc 0 6 1 ex_st1 = Inr ex_st2"
proof -
  have "GetCostStat ex_t (stats ex_st1) = ex_cm"
    "length_array_buffer ex_st1 = [0, 1, 1, 1, 1, 1, 3]"
    by (simp_all add: ex_t_def ex_st1_def)
  then show ?thesis
    by (simp add: ZopfliLZ77Optimal_round_def ex_LZ77OptimalRun_again [simplified])
       (simp add: ex_st1_def ex_st2_def ex_t_def retain_best_def renew_stats_def
         blend_stats_def randomize_stats_def)
qed

lemma ex_runs:
  "ZopfliLZ77Optimal ex_c ex_t ex_abc 0 6 0 ex_la [] = Inr ex_st0"
  "ZopfliLZ77Optimal ex_c ex_t ex_abc 0 6 1 ex_la [] = Inr ex_st1"
  "ZopfliLZ77Optimal ex_c ex_t ex_abc 0 6 2 ex_la [] = Inr ex_st2"
  by (simp_all add: ex_init ZopfliLZ77Optimal_loop_done
      ZopfliLZ77Optimal_loop_step [of 0 1] ZopfliLZ77Optimal_loop_step [of 0 2]
      ZopfliLZ77Optimal_loop_step [of 1 2] ex_round ex_round_again)

theorem best_updated_iff_cost_improves_witness:
  "ZopfliLZ77Optimal ex_c ex_t ex_abc 0 6 2 ex_la [] = Inr ex_st2
   \<and> ZopfliLZ77Optimal_round ex_c ex_t ex_abc 0 6 0 ex_st0 = Inr ex_st1
   \<and> lastcost ex_st1 < bestcost ex_st0
   \<and> store ex_st1 = currentstore ex_st1 \<and> beststats ex_st1 = stats ex_st0
   \<and> bestcost ex_st1 = lastcost ex_st1
   \<and> ZopfliLZ77Optimal_round ex_c ex_t ex_abc 0 6 1 ex_st1 = Inr ex_st2
   \<and> \<not> lastcost ex_st2 < bestcost ex_st1
   \<and> store ex_st2 = store ex_st1 \<and> beststats ex_st2 = beststats ex_st1
   \<and> bestcost ex_st2 = bestcost ex_st1"
proof -
  have lt: "lastcost ex_st1 < bestcost ex_st0" "\<not> lastcost ex_st2 < bestcost ex_st1"
    by (simp_all add: ex_st0_def ex_st1_def ex_st2_def ZOPFLI_LARGE_FLOAT_value)
  note iter = best_updated_iff_cost_improves
    [of ex_c ex_t ex_abc 0 6 2 ex_la "[]" ex_st2 0 ex_st0 ex_st0, THEN conjunct1, rule_format,
     OF ex_runs(3), THEN conjunct2, rule_format]
  have "(0::int) \<le> 0 \<and> (0::int) < 2" "(0::int) \<le> 1 \<and> (1::int) < 2" by simp_all
  from iter [OF this(1)] iter [OF this(2)] ex_runs lt
  show ?thesis by auto
qed

lemma ZopfliLZ77Optimal_loop_bestcost:
  "ZopfliLZ77Optimal_loop c t inp instart inend numiterations i st = Inr st' \<Longrightarrow>
     bestcost st' \<le> bestcost st
     \<and> (i < numiterations \<longrightarrow> bestcost st' \<le> lastcost st'
          \<and> lastcost st' =
              ZopfliCalculateBlockSize t (currentstore st') 0 (length (currentstore st')) 2)
     \<and> (\<not> i < numiterations \<longrightarrow> st' = st)"
proof (induction c t inp instart inend numiterations i st rule: ZopfliLZ77Optimal_loop.induct)
  case (1 c t inp instart inend numiterations i st)
  show ?case
  proof (cases "i < numiterations")
    case False
    with "1.prems" show ?thesis
      by (simp add: ZopfliLZ77Optimal_loop.simps [of c t inp instart inend numiterations i st])
  next
    case True
    with "1.prems" obtain st1 where
      r: "ZopfliLZ77Optimal_round c t inp instart inend i st = Inr st1" and
      l: "ZopfliLZ77Optimal_loop c t inp instart inend numiterations (i + 1) st1 = Inr st'"
      by (auto simp: ZopfliLZ77Optimal_loop.simps [of c t inp instart inend numiterations i st]
          split: sum.splits)
    note ih = "1.IH" [OF True r l]
    note rb = ZopfliLZ77Optimal_round_best [OF r]
    from rb have b1: "bestcost st1 \<le> bestcost st" "bestcost st1 \<le> lastcost st1"
      by (cases "lastcost st1 < bestcost st"; simp)+
    show ?thesis
    proof (cases "i + 1 < numiterations")
      case True
      with ih b1 \<open>i < numiterations\<close> show ?thesis by simp
    next
      case False
      with ih have "st' = st1" by simp
      with b1 rb \<open>i < numiterations\<close> show ?thesis by simp
    qed
  qed
qed

lemma ZopfliLZ77Optimal_loop_achieved:
  "ZopfliLZ77Optimal_loop c t inp instart inend n i st = Inr st' \<Longrightarrow>
     bestcost st' = bestcost st
     \<or> (\<exists>k s1. i \<le> k \<and> k < n
           \<and> ZopfliLZ77Optimal_loop c t inp instart inend (k + 1) i st = Inr s1
           \<and> bestcost st' =
               ZopfliCalculateBlockSize t (currentstore s1) 0 (length (currentstore s1)) 2)"
proof (induction c t inp instart inend n i st rule: ZopfliLZ77Optimal_loop.induct)
  case (1 c t inp instart inend n i st)
  show ?case
  proof (cases "i < n")
    case False
    with "1.prems" show ?thesis
      by (simp add: ZopfliLZ77Optimal_loop.simps [of c t inp instart inend n i st])
  next
    case True
    with "1.prems" obtain st1 where
      r: "ZopfliLZ77Optimal_round c t inp instart inend i st = Inr st1" and
      l: "ZopfliLZ77Optimal_loop c t inp instart inend n (i + 1) st1 = Inr st'"
      by (auto simp: ZopfliLZ77Optimal_loop_step split: sum.splits)
    from r have one: "ZopfliLZ77Optimal_loop c t inp instart inend (i + 1) i st = Inr st1"
      by (simp add: ZopfliLZ77Optimal_loop_step ZopfliLZ77Optimal_loop_done)
    from "1.IH" [OF True r l] show ?thesis
    proof
      assume e: "bestcost st' = bestcost st1"
      show ?thesis
      proof (cases "lastcost st1 < bestcost st")
        case True
        with ZopfliLZ77Optimal_round_best [OF r] e have "bestcost st' =
            ZopfliCalculateBlockSize t (currentstore st1) 0 (length (currentstore st1)) 2"
          by simp
        with one \<open>i < n\<close> show ?thesis by blast
      next
        case False
        with ZopfliLZ77Optimal_round_best [OF r] e show ?thesis by simp
      qed
    next
      assume "\<exists>k s1. i + 1 \<le> k \<and> k < n
           \<and> ZopfliLZ77Optimal_loop c t inp instart inend (k + 1) (i + 1) st1 = Inr s1
           \<and> bestcost st' =
               ZopfliCalculateBlockSize t (currentstore s1) 0 (length (currentstore s1)) 2"
      then obtain k s1 where k: "i + 1 \<le> k" "k < n"
        "ZopfliLZ77Optimal_loop c t inp instart inend (k + 1) (i + 1) st1 = Inr s1"
        "bestcost st' =
           ZopfliCalculateBlockSize t (currentstore s1) 0 (length (currentstore s1)) 2"
        by blast
      from k(1) have "i < k + 1" "i \<le> k" by simp_all
      with r k(3) have "ZopfliLZ77Optimal_loop c t inp instart inend (k + 1) i st = Inr s1"
        by (simp add: ZopfliLZ77Optimal_loop_step)
      with k(2,4) \<open>i \<le> k\<close> show ?thesis by blast
    qed
  qed
qed

text \<open>
  A second stand-in for the block size: a literal takes 8 bits and a match 30, while the
  cost model of the run still counts 12 for a match.
\<close>

definition ex_t30 :: "(nat, nat) statistics" where
  "ex_t30 = ex_t\<lparr>ZopfliCalculateBlockSize := (\<lambda>store a b btype.
      sum_list (map (\<lambda>(litlen, d, pos). if d = 0 then 8 else 30) (take (b - a) (drop a store))))\<rparr>"

definition ex_st1_30 :: "(nat, nat) optimal_state" where
  "ex_st1_30 = ex_st1\<lparr>bestcost := 54, lastcost := 54\<rparr>"

lemma ex_init30:
  "ZopfliLZ77Optimal ex_c ex_t30 ex_abc 0 6 n ex_la [] =
     ZopfliLZ77Optimal_loop ex_c ex_t30 ex_abc 0 6 n 0 ex_st0"
proof -
  have "\<lparr>currentstore = ZopfliLZ77Greedy ex_t30 ex_abc 0 6 [], store = [],
          stats = GetStatistics ex_t30 (ZopfliLZ77Greedy ex_t30 ex_abc 0 6 [])
                    (symbol_stats_new ex_t30),
          beststats = symbol_stats_new ex_t30, laststats = symbol_stats_new ex_t30,
          bestcost = ZOPFLI_LARGE_FLOAT, lastcost = 0, lastrandomstep = - 1,
          ran_state = ran_state_new ex_t30, path = [], length_array_buffer = ex_la\<rparr> = ex_st0"
    by (simp add: ex_st0_def ex_t30_def ex_t_def ex_abc_def upt_rec [of _ "numeral _"])
  then show ?thesis
    by (simp only: ZopfliLZ77Optimal_def Let_def)
qed

lemma ex_round30: "ZopfliLZ77Optimal_round ex_c ex_t30 ex_abc 0 6 0 ex_st0 = Inr ex_st1_30"
proof -
  have "GetCostStat ex_t30 (stats ex_st0) = ex_cm" "length_array_buffer ex_st0 = ex_la"
    by (simp_all add: ex_t30_def ex_t_def ex_st0_def)
  then show ?thesis
    by (simp add: ZopfliLZ77Optimal_round_def ex_LZ77OptimalRun)
       (simp add: ex_st0_def ex_st1_def ex_st1_30_def ex_t30_def ex_t_def retain_best_def
         renew_stats_def blend_stats_def randomize_stats_def ZOPFLI_LARGE_FLOAT_value)
qed

lemma ex_greedy30:
  "ZopfliCalculateBlockSize ex_t30 (ZopfliLZ77Greedy ex_t30 ex_abc 0 6 []) 0
     (length (ZopfliLZ77Greedy ex_t30 ex_abc 0 6 [])) 2 = 48"
  by (simp add: ex_t30_def ex_t_def ex_abc_def upt_rec [of _ "numeral _"])

text \<open>
  C8 as stated fails.  The block size of the greedy seed is never computed, and
  \<^verbatim>\<open>bestcost\<close> starts at \<^verbatim>\<open>ZOPFLI_LARGE_FLOAT\<close>.  With one iteration on the block
  \<^verbatim>\<open>abcabc\<close>, a cost model that counts 12 for a match and a block size that takes 30
  bits for it, the run chooses the match: its parse takes 54 bits, the greedy parse of six
  literals 48, and the call ends with \<^verbatim>\<open>bestcost = 54\<close>.  With no iteration the call
  ends with \<^verbatim>\<open>bestcost = ZOPFLI_LARGE_FLOAT\<close>.
\<close>

theorem bestcost_not_below_greedy_counterexample:
  "ZopfliLZ77Optimal ex_c ex_t30 ex_abc 0 6 1 ex_la [] = Inr ex_st1_30
   \<and> bestcost ex_st1_30 = 54
   \<and> ZopfliCalculateBlockSize ex_t30 (ZopfliLZ77Greedy ex_t30 ex_abc 0 6 []) 0
        (length (ZopfliLZ77Greedy ex_t30 ex_abc 0 6 [])) 2 = 48
   \<and> \<not> bestcost ex_st1_30
         \<le> ZopfliCalculateBlockSize ex_t30 (ZopfliLZ77Greedy ex_t30 ex_abc 0 6 []) 0
             (length (ZopfliLZ77Greedy ex_t30 ex_abc 0 6 [])) 2
   \<and> ZopfliLZ77Optimal ex_c ex_t ex_abc 0 6 0 ex_la [] = Inr ex_st0
   \<and> \<not> bestcost ex_st0
         \<le> ZopfliCalculateBlockSize ex_t (ZopfliLZ77Greedy ex_t ex_abc 0 6 []) 0
             (length (ZopfliLZ77Greedy ex_t ex_abc 0 6 [])) 2"
proof -
  have "ZopfliLZ77Optimal ex_c ex_t30 ex_abc 0 6 1 ex_la [] = Inr ex_st1_30"
    by (simp add: ex_init30 ZopfliLZ77Optimal_loop_step [of 0 1] ex_round30
        ZopfliLZ77Optimal_loop_done)
  moreover have "bestcost ex_st1_30 = 54" by (simp add: ex_st1_30_def)
  moreover have "\<not> bestcost ex_st0
         \<le> ZopfliCalculateBlockSize ex_t (ZopfliLZ77Greedy ex_t ex_abc 0 6 []) 0
             (length (ZopfliLZ77Greedy ex_t ex_abc 0 6 [])) 2"
    by (simp add: ex_st0_def ex_t_def ex_abc_def ZOPFLI_LARGE_FLOAT_value)
  ultimately show ?thesis by (simp add: ex_greedy30 ex_runs(1))
qed

text \<open>
  C8, amended.  Take a run of \<^verbatim>\<open>ZopfliLZ77Optimal\<close> with \<open>n\<close> iterations that returns.
  \<^verbatim>\<open>bestcost\<close> never increases from one iteration to the next: for every iteration
  \<open>k\<close>, its value after the iteration is at most its value before, and at most the block
  size of the iteration's parse; and the final value is at most the value after every
  iteration.  The final value is \<^verbatim>\<open>ZOPFLI_LARGE_FLOAT\<close>, its initial value, or the block
  size of the parse of one of the iterations; so it is the least of these.  When no
  iteration ran it is \<^verbatim>\<open>ZOPFLI_LARGE_FLOAT\<close>.  No bound by the greedy seed holds.
\<close>

theorem bestcost_never_regresses:
  "ZopfliLZ77Optimal c t inp instart inend n la store0 = Inr st' \<Longrightarrow>
     bestcost st' \<le> ZOPFLI_LARGE_FLOAT
     \<and> (\<forall>k. 0 \<le> k \<and> k < n \<longrightarrow>
          (\<exists>s s1. ZopfliLZ77Optimal c t inp instart inend k la store0 = Inr s
             \<and> ZopfliLZ77Optimal c t inp instart inend (k + 1) la store0 = Inr s1
             \<and> bestcost s1 \<le> bestcost s
             \<and> bestcost s1
                 \<le> ZopfliCalculateBlockSize t (currentstore s1) 0 (length (currentstore s1)) 2
             \<and> bestcost st' \<le> bestcost s1))
     \<and> (bestcost st' = ZOPFLI_LARGE_FLOAT
        \<or> (\<exists>k s1. 0 \<le> k \<and> k < n
              \<and> ZopfliLZ77Optimal c t inp instart inend (k + 1) la store0 = Inr s1
              \<and> bestcost st' =
                  ZopfliCalculateBlockSize t (currentstore s1) 0 (length (currentstore s1)) 2))
     \<and> (0 < n \<longrightarrow> bestcost st' \<le> lastcost st'
          \<and> lastcost st' =
              ZopfliCalculateBlockSize t (currentstore st') 0 (length (currentstore st')) 2)
     \<and> (n \<le> 0 \<longrightarrow> bestcost st' = ZOPFLI_LARGE_FLOAT)"
proof -
  assume run: "ZopfliLZ77Optimal c t inp instart inend n la store0 = Inr st'"
  let ?st0 = "\<lparr>currentstore = ZopfliLZ77Greedy t inp instart inend [], store = store0,
            stats = GetStatistics t (ZopfliLZ77Greedy t inp instart inend [])
                      (symbol_stats_new t),
            beststats = symbol_stats_new t, laststats = symbol_stats_new t,
            bestcost = ZOPFLI_LARGE_FLOAT, lastcost = 0, lastrandomstep = - 1,
            ran_state = ran_state_new t, path = [], length_array_buffer = la\<rparr>"
  from run have loop: "ZopfliLZ77Optimal_loop c t inp instart inend n 0 ?st0 = Inr st'"
    by (simp add: ZopfliLZ77Optimal_def Let_def)
  have runs: "ZopfliLZ77Optimal c t inp instart inend k la store0 =
      ZopfliLZ77Optimal_loop c t inp instart inend k 0 ?st0" for k
    by (simp add: ZopfliLZ77Optimal_def Let_def)
  from ZopfliLZ77Optimal_loop_bestcost [OF loop]
  have final: "bestcost st' \<le> ZOPFLI_LARGE_FLOAT"
    "0 < n \<longrightarrow> bestcost st' \<le> lastcost st'
          \<and> lastcost st' =
              ZopfliCalculateBlockSize t (currentstore st') 0 (length (currentstore st')) 2"
    "n \<le> 0 \<longrightarrow> bestcost st' = ZOPFLI_LARGE_FLOAT"
    by auto
  have iteration: "\<exists>s s1. ZopfliLZ77Optimal c t inp instart inend k la store0 = Inr s
             \<and> ZopfliLZ77Optimal c t inp instart inend (k + 1) la store0 = Inr s1
             \<and> bestcost s1 \<le> bestcost s
             \<and> bestcost s1
                 \<le> ZopfliCalculateBlockSize t (currentstore s1) 0 (length (currentstore s1)) 2
             \<and> bestcost st' \<le> bestcost s1"
    if k0: "0 \<le> k" and kn: "k < n" for k
  proof -
    from ZopfliLZ77Optimal_loop_iteration [OF loop k0 kn] obtain s s1 where
      s: "ZopfliLZ77Optimal_loop c t inp instart inend k 0 ?st0 = Inr s"
      and r: "ZopfliLZ77Optimal_round c t inp instart inend k s = Inr s1"
      and s1: "ZopfliLZ77Optimal_loop c t inp instart inend (k + 1) 0 ?st0 = Inr s1"
      and l: "ZopfliLZ77Optimal_loop c t inp instart inend n (k + 1) s1 = Inr st'"
      by blast
    from ZopfliLZ77Optimal_round_best [OF r]
    have "bestcost s1 \<le> bestcost s"
      "bestcost s1
         \<le> ZopfliCalculateBlockSize t (currentstore s1) 0 (length (currentstore s1)) 2"
      by (cases "lastcost s1 < bestcost s"; simp)+
    moreover from ZopfliLZ77Optimal_loop_bestcost [OF l] have "bestcost st' \<le> bestcost s1"
      by simp
    ultimately show ?thesis using s s1 by (simp add: runs)
  qed
  from ZopfliLZ77Optimal_loop_achieved [OF loop]
  have achieved: "bestcost st' = ZOPFLI_LARGE_FLOAT
        \<or> (\<exists>k s1. 0 \<le> k \<and> k < n
              \<and> ZopfliLZ77Optimal c t inp instart inend (k + 1) la store0 = Inr s1
              \<and> bestcost st' =
                  ZopfliCalculateBlockSize t (currentstore s1) 0 (length (currentstore s1)) 2)"
    by (simp add: runs)
  from final iteration achieved show ?thesis by blast
qed

theorem bestcost_never_regresses_witness:
  "ZopfliLZ77Optimal ex_c ex_t ex_abc 0 6 2 ex_la [] = Inr ex_st2
   \<and> bestcost ex_st2 \<le> ZOPFLI_LARGE_FLOAT
   \<and> bestcost ex_st1 \<le> bestcost ex_st0 \<and> bestcost ex_st2 \<le> bestcost ex_st1
   \<and> bestcost ex_st2 \<le> lastcost ex_st2
   \<and> bestcost ex_st2 = 36"
proof -
  note b = bestcost_never_regresses [OF ex_runs(3)]
  note iter = b [THEN conjunct2, THEN conjunct1, rule_format]
  have "(0::int) \<le> 0 \<and> (0::int) < 2" "(0::int) \<le> 1 \<and> (1::int) < 2" by simp_all
  from iter [OF this(1)] iter [OF this(2)] b ex_runs
  have "bestcost ex_st2 \<le> ZOPFLI_LARGE_FLOAT" "bestcost ex_st1 \<le> bestcost ex_st0"
    "bestcost ex_st2 \<le> bestcost ex_st1" "bestcost ex_st2 \<le> lastcost ex_st2"
    by auto
  moreover have "bestcost ex_st2 = 36" by (simp add: ex_st2_def ex_st1_def)
  ultimately show ?thesis using ex_runs(3) by simp
qed

section \<open>The path of TraceBackwards\<close>

text \<open>
  A path lists edge lengths in forward order when, read from index \<open>idx\<close> on, every
  element is the length that \<^verbatim>\<open>length_array\<close> records at the index the edge arrives at.
\<close>

fun forward_path :: "nat list \<Rightarrow> nat \<Rightarrow> nat list \<Rightarrow> bool" where
  "forward_path la idx [] = True"
| "forward_path la idx (l # p) = (la ! (idx + l) = l \<and> forward_path la (idx + l) p)"

text \<open>
  The invariant of \<^verbatim>\<open>length_array\<close> that the traceback relies on: the array has the
  indices \<open>0..b\<close>, and every entry at \<open>j\<close> in \<open>(0, b]\<close> is 1 or lies in \<open>[3, 258]\<close>,
  and is at most \<open>j\<close>.
\<close>

definition valid_lengths :: "nat \<Rightarrow> nat list \<Rightarrow> bool" where
  "valid_lengths b la =
     (b < length la \<and>
      (\<forall>j. 0 < j \<and> j \<le> b \<longrightarrow>
         (la ! j = 1 \<or> 3 \<le> la ! j \<and> la ! j \<le> 258) \<and> la ! j \<le> j))"

lemma forward_path_snoc:
  "forward_path la idx (p @ [l]) =
     (forward_path la idx p \<and> la ! (idx + sum_list p + l) = l)"
  by (induction p arbitrary: idx) (auto simp: add.assoc)

text \<open>The mirror loop reverses the path: after \<open>m\<close> rounds the first and the last \<open>m\<close>
  elements are exchanged.\<close>

lemma mirror_prefix:
  "m \<le> length xs div 2 \<Longrightarrow>
     length (foldl mirror_step xs [0..<m]) = length xs \<and>
     (\<forall>t < length xs. foldl mirror_step xs [0..<m] ! t =
        (if t < m \<or> length xs - m \<le> t then xs ! (length xs - 1 - t) else xs ! t))"
proof (induction m)
  case 0
  then show ?case by simp
next
  case (Suc m)
  let ?n = "length xs"
  let ?ys = "foldl mirror_step xs [0..<m]"
  from Suc have ih: "length ?ys = ?n"
    "\<And>t. t < ?n \<Longrightarrow> ?ys ! t = (if t < m \<or> ?n - m \<le> t then xs ! (?n - 1 - t) else xs ! t)"
    by simp_all
  from Suc.prems have m: "2 * m + 2 \<le> ?n" by simp
  have step: "foldl mirror_step xs [0..<Suc m] = mirror_step ?ys m" by simp
  from m have na: "\<not> (m < m \<or> ?n - m \<le> m)" "m < ?n" by arith+
  from m have nb: "\<not> (?n - m - 1 < m \<or> ?n - m \<le> ?n - m - 1)" "?n - m - 1 < ?n" by arith+
  have a: "?ys ! m = xs ! m" using ih(2) [OF na(2)] na(1) by simp
  have b: "?ys ! (?n - m - 1) = xs ! (?n - m - 1)" using ih(2) [OF nb(2)] nb(1) by simp
  have len: "length (mirror_step ?ys m) = ?n" by (simp add: mirror_step_def Let_def ih(1))
  have "mirror_step ?ys m ! t =
          (if t < Suc m \<or> ?n - Suc m \<le> t then xs ! (?n - 1 - t) else xs ! t)"
    if t: "t < ?n" for t
  proof -
    have "mirror_step ?ys m ! t =
            (if t = ?n - m - 1 then ?ys ! m else if t = m then ?ys ! (?n - m - 1) else ?ys ! t)"
      using t m by (simp add: mirror_step_def Let_def ih(1) nth_list_update)
    also have "\<dots> = (if t < Suc m \<or> ?n - Suc m \<le> t then xs ! (?n - 1 - t) else xs ! t)"
      using a b ih(2) [OF t] t m by (auto simp: less_Suc_eq)
    finally show ?thesis .
  qed
  with len step show ?case by simp
qed

lemma mirror_rev: "mirror xs = rev xs"
proof (rule nth_equalityI)
  show "length (mirror xs) = length (rev xs)"
    using mirror_prefix [of "length xs div 2" xs] by (simp add: mirror_def)
next
  fix t assume "t < length (mirror xs)"
  then have t: "t < length xs"
    using mirror_prefix [of "length xs div 2" xs] by (simp add: mirror_def)
  have "mirror xs ! t = xs ! (length xs - 1 - t)"
  proof (cases "t < length xs div 2 \<or> length xs - length xs div 2 \<le> t")
    case True
    with t mirror_prefix [of "length xs div 2" xs] show ?thesis by (simp add: mirror_def)
  next
    case False
    then have "t = length xs - 1 - t" using t by linarith
    moreover from False t mirror_prefix [of "length xs div 2" xs]
    have "mirror xs ! t = xs ! t" by (simp add: mirror_def)
    ultimately show ?thesis by simp
  qed
  with t show "mirror xs ! t = rev xs ! t" by (simp add: rev_nth)
qed

lemma TraceBackwards_loop_path:
  assumes "valid_lengths b la"
  shows "0 < index \<Longrightarrow> index \<le> b \<Longrightarrow>
     \<exists>q. TraceBackwards_loop la index pth = Inr (pth @ q) \<and> sum_list q = index
         \<and> forward_path la 0 (rev q) \<and> (\<forall>l \<in> set q. l = 1 \<or> 3 \<le> l \<and> l \<le> 258)"
proof (induction index arbitrary: pth rule: less_induct)
  case (less index)
  let ?l = "la ! index"
  from assms less.prems have l: "?l = 1 \<or> 3 \<le> ?l \<and> ?l \<le> 258" "?l \<le> index" "index < length la"
    by (auto simp: valid_lengths_def)
  then have l0: "?l \<noteq> 0" "?l \<le> ZOPFLI_MAX_MATCH" by (auto simp: ZOPFLI_MAX_MATCH_def)
  show ?case
  proof (cases "index - ?l = 0")
    case True
    with l l0 have "TraceBackwards_loop la index pth = Inr (pth @ [?l])"
      by (simp add: TraceBackwards_loop.simps [of la index pth])
    moreover from True l have "?l = index" by simp
    ultimately show ?thesis using l(1) by (intro exI [of _ "[?l]"]) simp
  next
    case False
    with l l0 have unf: "TraceBackwards_loop la index pth =
        TraceBackwards_loop la (index - ?l) (pth @ [?l])"
      by (simp add: TraceBackwards_loop.simps [of la index pth])
    from False l l0 less.prems have "index - ?l < index" "0 < index - ?l" "index - ?l \<le> b"
      by simp_all
    from less.IH [OF this, of "pth @ [?l]"] obtain q where
      q: "TraceBackwards_loop la (index - ?l) (pth @ [?l]) = Inr ((pth @ [?l]) @ q)"
         "sum_list q = index - ?l" "forward_path la 0 (rev q)"
         "\<forall>l \<in> set q. l = 1 \<or> 3 \<le> l \<and> l \<le> 258"
      by blast
    from q l have "forward_path la 0 (rev (?l # q))"
      by (simp add: forward_path_snoc)
    with q l unf show ?thesis
      by (intro exI [of _ "?l # q"]) simp
  qed
qed

text \<open>
  C6.  For every size \<open>b\<close> and every \<^verbatim>\<open>length_array\<close> that satisfies the invariant,
  \<^verbatim>\<open>TraceBackwards\<close> returns (no assertion fails, and the loop ends since the index
  decreases) a path that lists, in forward order, the edge lengths recorded at the indices
  it passes; every element is 1 or in \<open>[3, 258]\<close>; the elements sum to \<open>b\<close>; and for
  \<open>b = 0\<close> the path is empty.
\<close>

theorem TraceBackwards_path:
  "valid_lengths b la \<Longrightarrow>
     \<exists>p. TraceBackwards b la [] = Inr p \<and> sum_list p = b \<and> forward_path la 0 p
        \<and> (\<forall>l \<in> set p. l = 1 \<or> 3 \<le> l \<and> l \<le> 258) \<and> (b = 0 \<longrightarrow> p = [])"
proof (cases "b = 0")
  case True
  then show ?thesis by (simp add: TraceBackwards_def)
next
  case False
  assume "valid_lengths b la"
  from TraceBackwards_loop_path [OF this, of b "[]"] False obtain q where
    "TraceBackwards_loop la b [] = Inr q" "sum_list q = b" "forward_path la 0 (rev q)"
    "\<forall>l \<in> set q. l = 1 \<or> 3 \<le> l \<and> l \<le> 258"
    by auto
  with False show ?thesis
    by (intro exI [of _ "rev q"]) (simp add: TraceBackwards_def mirror_rev)
qed

theorem TraceBackwards_path_witness:
  "valid_lengths 6 [0, 1, 1, 1, 1, 1, 3]
   \<and> TraceBackwards 6 [0, 1, 1, 1, 1, 1, 3] [] = Inr [1, 1, 1, 3]
   \<and> sum_list [1, 1, 1, 3 :: nat] = 6 \<and> forward_path [0, 1, 1, 1, 1, 1, 3] 0 [1, 1, 1, 3]"
proof -
  have v: "valid_lengths 6 [0, 1, 1, 1, 1, 1, 3]"
  proof -
    have "(([0, 1, 1, 1, 1, 1, 3] :: nat list) ! j = 1
            \<or> 3 \<le> ([0, 1, 1, 1, 1, 1, 3] :: nat list) ! j
              \<and> ([0, 1, 1, 1, 1, 1, 3] :: nat list) ! j \<le> 258)
          \<and> ([0, 1, 1, 1, 1, 1, 3] :: nat list) ! j \<le> j" if "0 < j \<and> j \<le> 6" for j :: nat
    proof -
      from that have "j = 1 \<or> j = 2 \<or> j = 3 \<or> j = 4 \<or> j = 5 \<or> j = 6" by arith
      then show ?thesis by (elim disjE) simp_all
    qed
    then show ?thesis
      unfolding valid_lengths_def by simp
  qed
  from TraceBackwards_path [OF v] show ?thesis
    using v by (simp add: ex_TraceBackwards [simplified])
qed

section \<open>The run-of-same-byte fast path\<close>

text \<open>
  The condition of the fast path in the words of the spec, to be compared with the
  condition in \<open>fast_path\<close>: the run covering \<open>i\<close> is at least
  \<open>2 * ZOPFLI_MAX_MATCH\<close>, \<open>i > instart + ZOPFLI_MAX_MATCH + 1\<close>,
  \<open>i + 2 * ZOPFLI_MAX_MATCH + 1 < inend\<close>, and the run extent \<^verbatim>\<open>ZOPFLI_MAX_MATCH\<close>
  behind \<open>i\<close> is at least \<^verbatim>\<open>ZOPFLI_MAX_MATCH\<close>.
\<close>

definition fast_path_claimed ::
  "'h collaborators \<Rightarrow> 8 word list \<Rightarrow> nat \<Rightarrow> nat \<Rightarrow> nat \<Rightarrow> 'h dp_state \<Rightarrow> bool" where
  "fast_path_claimed c inp instart inend i st =
     (let hsame = ZopfliHashSame c (ZopfliUpdateHash c inp i inend (hash st))
      in hsame (i AND ZOPFLI_WINDOW_MASK) \<ge> 2 * ZOPFLI_MAX_MATCH
         \<and> i > instart + ZOPFLI_MAX_MATCH + 1
         \<and> i + 2 * ZOPFLI_MAX_MATCH + 1 < inend
         \<and> hsame ((i - ZOPFLI_MAX_MATCH) AND ZOPFLI_WINDOW_MASK) \<ge> ZOPFLI_MAX_MATCH)"

text \<open>
  A block of 1000 equal bytes, a state of the forward pass at position 300 of it, and
  collaborators that report a run of 516, and of 517, at every window slot.
\<close>

definition ex_run516 :: "nat collaborators" where
  "ex_run516 = ex_c\<lparr>ZopfliHashSame := (\<lambda>h idx. 516)\<rparr>"

definition ex_run517 :: "nat collaborators" where
  "ex_run517 = ex_c\<lparr>ZopfliHashSame := (\<lambda>h idx. 517)\<rparr>"

definition ex_xs :: "8 word list" where
  "ex_xs = replicate 1000 120"

definition ex_dp300 :: "nat dp_state" where
  "ex_dp300 = \<lparr>costs = replicate 1001 0, length_array = replicate 1001 1, hash = 300\<rparr>"

text \<open>
  The inner loop in closed form.  Started at round \<open>k\<close> it runs \<open>258 - k\<close> rounds.
  Every round reads \<^verbatim>\<open>costs[j]\<close> below the indices written so far, so each index \<open>x\<close>
  from \<open>j + 258\<close> on gets the initial cost of \<open>x - 258\<close> plus the symbol cost, and
  length 258.
\<close>

lemma fast_path_loop_closed:
  "j + 258 + (258 - k) \<le> length (costs st) \<Longrightarrow>
   j + 258 + (258 - k) \<le> length (length_array st) \<Longrightarrow>
   \<exists>st'. fast_path_loop c inp inend sc k i j st = Inr (i + (258 - k), j + (258 - k), st')
      \<and> length (costs st') = length (costs st)
      \<and> length (length_array st') = length (length_array st)
      \<and> (\<forall>x. costs st' ! x =
            (if j + 258 \<le> x \<and> x < j + 258 + (258 - k)
               then to_float (to_double (costs st ! (x - 258) + sc))
             else costs st ! x))
      \<and> (\<forall>x. length_array st' ! x =
            (if j + 258 \<le> x \<and> x < j + 258 + (258 - k) then 258 else length_array st ! x))
      \<and> hash st' = foldl (\<lambda>h p. ZopfliUpdateHash c inp p inend h) (hash st)
                      [i + 1..<i + 1 + (258 - k)]"
proof (induction c inp inend sc k i j st rule: fast_path_loop.induct)
  case (1 c inp inend sc k i j st)
  show ?case
  proof (cases "k < ZOPFLI_MAX_MATCH")
    case False
    then have "258 - k = 0" by (simp add: ZOPFLI_MAX_MATCH_def)
    with False show ?thesis
      by (simp add: fast_path_loop.simps [of c inp inend sc k i j st])
  next
    case True
    then have k: "k < 258" by (simp add: ZOPFLI_MAX_MATCH_def)
    let ?st1 = "st\<lparr>costs := (costs st)[j + ZOPFLI_MAX_MATCH :=
                                   to_float (to_double (costs st ! j + sc))],
                    length_array := (length_array st)[j + ZOPFLI_MAX_MATCH := ZOPFLI_MAX_MATCH],
                    hash := ZopfliUpdateHash c inp (i + 1) inend (hash st)\<rparr>"
    from k "1.prems" have nb: "\<not> (length (costs st) \<le> j + ZOPFLI_MAX_MATCH
            \<or> length (length_array st) \<le> j + ZOPFLI_MAX_MATCH)"
      unfolding ZOPFLI_MAX_MATCH_def by arith
    from True nb have unf: "fast_path_loop c inp inend sc k i j st =
        fast_path_loop c inp inend sc (k + 1) (i + 1) (j + 1) ?st1"
      by (simp add: fast_path_loop.simps [of c inp inend sc k i j st])
    from k "1.prems" have p1: "j + 1 + 258 + (258 - (k + 1)) \<le> length (costs ?st1)"
      "j + 1 + 258 + (258 - (k + 1)) \<le> length (length_array ?st1)"
      by (simp_all; arith)+
    from "1.IH" [OF True nb p1] obtain st' where
      r: "fast_path_loop c inp inend sc (k + 1) (i + 1) (j + 1) ?st1 =
            Inr (i + 1 + (258 - (k + 1)), j + 1 + (258 - (k + 1)), st')"
      and len: "length (costs st') = length (costs ?st1)"
         "length (length_array st') = length (length_array ?st1)"
      and cs: "\<And>x. costs st' ! x =
            (if j + 1 + 258 \<le> x \<and> x < j + 1 + 258 + (258 - (k + 1))
             then to_float (to_double (costs ?st1 ! (x - 258) + sc)) else costs ?st1 ! x)"
      and la: "\<And>x. length_array st' ! x =
            (if j + 1 + 258 \<le> x \<and> x < j + 1 + 258 + (258 - (k + 1)) then 258
             else length_array ?st1 ! x)"
      and h: "hash st' = foldl (\<lambda>h p. ZopfliUpdateHash c inp p inend h) (hash ?st1)
                      [i + 1 + 1..<i + 1 + 1 + (258 - (k + 1))]"
      by blast
    have idx: "i + 1 + (258 - (k + 1)) = i + (258 - k)" "j + 1 + (258 - (k + 1)) = j + (258 - k)"
      using k by simp_all
    have cs': "costs st' ! x =
            (if j + 258 \<le> x \<and> x < j + 258 + (258 - k)
               then to_float (to_double (costs st ! (x - 258) + sc))
             else costs st ! x)" for x
      using cs [of x] k "1.prems"
      by (auto simp: ZOPFLI_MAX_MATCH_def nth_list_update)
    have la': "length_array st' ! x =
            (if j + 258 \<le> x \<and> x < j + 258 + (258 - k) then 258 else length_array st ! x)" for x
      using la [of x] k "1.prems"
      by (auto simp: ZOPFLI_MAX_MATCH_def nth_list_update)
    have "[i + 1..<i + 1 + (258 - k)] = (i + 1) # [i + 1 + 1..<i + 1 + 1 + (258 - (k + 1))]"
    proof -
      have lt: "i + 1 < i + 1 + (258 - k)" using k by arith
      have e: "i + 1 + 1 + (258 - (k + 1)) = i + 1 + (258 - k)"
        using k by arith
      have e': "i + 1 + 1 = Suc (i + 1)" by simp
      show ?thesis unfolding e unfolding e' by (rule upt_conv_Cons [OF lt])
    qed
    with h have h': "hash st' = foldl (\<lambda>h p. ZopfliUpdateHash c inp p inend h) (hash st)
                      [i + 1..<i + 1 + (258 - k)]"
      by simp
    from r len cs' la' h' show ?thesis
      unfolding unf idx by (intro exI [of _ st']) simp
  qed
qed


text \<open>
  C4, amended.  With arrays of at least \<open>inend - instart + 1\<close> entries, the fast path is
  taken at position \<open>i\<close> exactly when the run covering \<open>i\<close> is \<^emph>\<open>greater than\<close>
  \<open>2 * ZOPFLI_MAX_MATCH\<close>, \<open>i > instart + ZOPFLI_MAX_MATCH + 1\<close>,
  \<open>i + 2 * ZOPFLI_MAX_MATCH + 1 < inend\<close>, and the run extent \<^verbatim>\<open>ZOPFLI_MAX_MATCH\<close>
  behind \<open>i\<close> is \<^emph>\<open>greater than\<close> \<^verbatim>\<open>ZOPFLI_MAX_MATCH\<close>.  When taken it performs
  \<^verbatim>\<open>ZOPFLI_MAX_MATCH\<close> steps: \<open>i\<close> and \<open>j\<close> advance by 258, the hash is updated at
  every position up to the new \<open>i\<close>, and each index \<open>x\<close> in
  \<open>[j + 258, j + 516)\<close> gets the cost of \<open>x - 258\<close> plus \<open>costmodel 258 1\<close> (the
  sum of \<^verbatim>\<open>double\<close>s, stored as a \<^verbatim>\<open>float\<close>) and the length 258; nothing else
  changes.  When not taken only the hash is advanced to \<open>i\<close>.
\<close>

theorem fast_path_taken_iff:
  assumes "inend - instart + 1 \<le> length (costs st)"
    and "inend - instart + 1 \<le> length (length_array st)"
  shows "(ZopfliHashSame c (ZopfliUpdateHash c inp i inend (hash st)) (i AND ZOPFLI_WINDOW_MASK)
             > ZOPFLI_MAX_MATCH * 2
          \<and> i > instart + ZOPFLI_MAX_MATCH + 1
          \<and> i + ZOPFLI_MAX_MATCH * 2 + 1 < inend
          \<and> ZopfliHashSame c (ZopfliUpdateHash c inp i inend (hash st))
               ((i - ZOPFLI_MAX_MATCH) AND ZOPFLI_WINDOW_MASK) > ZOPFLI_MAX_MATCH
          \<longrightarrow>
            (\<exists>st'. fast_path c inp instart inend costmodel i st =
                     Inr (i + ZOPFLI_MAX_MATCH, i - instart + ZOPFLI_MAX_MATCH, st')
               \<and> length (costs st') = length (costs st)
               \<and> length (length_array st') = length (length_array st)
               \<and> (\<forall>x. costs st' ! x =
                     (if i - instart + ZOPFLI_MAX_MATCH \<le> x
                         \<and> x < i - instart + ZOPFLI_MAX_MATCH * 2

                         then to_float (to_double (costs st ! (x - ZOPFLI_MAX_MATCH) + costmodel ZOPFLI_MAX_MATCH 1))
                      else costs st ! x))
               \<and> (\<forall>x. length_array st' ! x =
                     (if i - instart + ZOPFLI_MAX_MATCH \<le> x
                         \<and> x < i - instart + ZOPFLI_MAX_MATCH * 2
                      then ZOPFLI_MAX_MATCH else length_array st ! x))
               \<and> hash st' = foldl (\<lambda>h p. ZopfliUpdateHash c inp p inend h) (hash st)
                               [i..<i + ZOPFLI_MAX_MATCH + 1]))
       \<and> (\<not> (ZopfliHashSame c (ZopfliUpdateHash c inp i inend (hash st))
                 (i AND ZOPFLI_WINDOW_MASK) > ZOPFLI_MAX_MATCH * 2
              \<and> i > instart + ZOPFLI_MAX_MATCH + 1
              \<and> i + ZOPFLI_MAX_MATCH * 2 + 1 < inend
              \<and> ZopfliHashSame c (ZopfliUpdateHash c inp i inend (hash st))
                   ((i - ZOPFLI_MAX_MATCH) AND ZOPFLI_WINDOW_MASK) > ZOPFLI_MAX_MATCH)
          \<longrightarrow> fast_path c inp instart inend costmodel i st =
                Inr (i, i - instart,
                     st\<lparr>hash := ZopfliUpdateHash c inp i inend (hash st)\<rparr>))"
proof (intro conjI impI)
  let ?st1 = "st\<lparr>hash := ZopfliUpdateHash c inp i inend (hash st)\<rparr>"
  let ?j = "i - instart"
  assume taken: "ZopfliHashSame c (ZopfliUpdateHash c inp i inend (hash st))
             (i AND ZOPFLI_WINDOW_MASK) > ZOPFLI_MAX_MATCH * 2
          \<and> i > instart + ZOPFLI_MAX_MATCH + 1
          \<and> i + ZOPFLI_MAX_MATCH * 2 + 1 < inend
          \<and> ZopfliHashSame c (ZopfliUpdateHash c inp i inend (hash st))
               ((i - ZOPFLI_MAX_MATCH) AND ZOPFLI_WINDOW_MASK) > ZOPFLI_MAX_MATCH"
  then have unf: "fast_path c inp instart inend costmodel i st =
      fast_path_loop c inp inend (costmodel ZOPFLI_MAX_MATCH 1) 0 i ?j ?st1"
    by (simp add: fast_path_def Let_def)
  from taken assms have b: "?j + 258 + (258 - 0) \<le> length (costs ?st1)"
    "?j + 258 + (258 - 0) \<le> length (length_array ?st1)"
    unfolding ZOPFLI_MAX_MATCH_def by (simp_all; arith)+
  from fast_path_loop_closed [OF b, of c inp inend "costmodel ZOPFLI_MAX_MATCH 1" i]
  obtain st' where
    r: "fast_path_loop c inp inend (costmodel ZOPFLI_MAX_MATCH 1) 0 i ?j ?st1 =
          Inr (i + (258 - 0), ?j + (258 - 0), st')"
    and rest: "length (costs st') = length (costs ?st1)"
      "length (length_array st') = length (length_array ?st1)"
      "\<And>x. costs st' ! x =
            (if ?j + 258 \<le> x \<and> x < ?j + 258 + (258 - 0)

                then to_float (to_double (costs ?st1 ! (x - 258) + costmodel ZOPFLI_MAX_MATCH 1)) else costs ?st1 ! x)"
      "\<And>x. length_array st' ! x =
            (if ?j + 258 \<le> x \<and> x < ?j + 258 + (258 - 0) then 258
             else length_array ?st1 ! x)"
      "hash st' = foldl (\<lambda>h p. ZopfliUpdateHash c inp p inend h) (hash ?st1)
                      [i + 1..<i + 1 + (258 - 0)]"
    by blast
  have "[i..<i + ZOPFLI_MAX_MATCH + 1] = i # [i + 1..<i + 1 + (258 - 0)]"
    by (simp add: ZOPFLI_MAX_MATCH_def upt_rec [of i])
  with rest(5) have h: "hash st' = foldl (\<lambda>h p. ZopfliUpdateHash c inp p inend h) (hash st)
                               [i..<i + ZOPFLI_MAX_MATCH + 1]"
    by simp
  from r rest(1-4) h
  show "\<exists>st'. fast_path c inp instart inend costmodel i st =
                     Inr (i + ZOPFLI_MAX_MATCH, i - instart + ZOPFLI_MAX_MATCH, st')
               \<and> length (costs st') = length (costs st)
               \<and> length (length_array st') = length (length_array st)
               \<and> (\<forall>x. costs st' ! x =
                     (if i - instart + ZOPFLI_MAX_MATCH \<le> x
                         \<and> x < i - instart + ZOPFLI_MAX_MATCH * 2

                         then to_float (to_double (costs st ! (x - ZOPFLI_MAX_MATCH) + costmodel ZOPFLI_MAX_MATCH 1))
                      else costs st ! x))
               \<and> (\<forall>x. length_array st' ! x =
                     (if i - instart + ZOPFLI_MAX_MATCH \<le> x
                         \<and> x < i - instart + ZOPFLI_MAX_MATCH * 2
                      then ZOPFLI_MAX_MATCH else length_array st ! x))
               \<and> hash st' = foldl (\<lambda>h p. ZopfliUpdateHash c inp p inend h) (hash st)
                               [i..<i + ZOPFLI_MAX_MATCH + 1]"
    unfolding unf by (intro exI [of _ st']) (simp add: ZOPFLI_MAX_MATCH_def)
next
  assume "\<not> (ZopfliHashSame c (ZopfliUpdateHash c inp i inend (hash st))
                 (i AND ZOPFLI_WINDOW_MASK) > ZOPFLI_MAX_MATCH * 2
              \<and> i > instart + ZOPFLI_MAX_MATCH + 1
              \<and> i + ZOPFLI_MAX_MATCH * 2 + 1 < inend
              \<and> ZopfliHashSame c (ZopfliUpdateHash c inp i inend (hash st))
                   ((i - ZOPFLI_MAX_MATCH) AND ZOPFLI_WINDOW_MASK) > ZOPFLI_MAX_MATCH)"
  then show "fast_path c inp instart inend costmodel i st =
                Inr (i, i - instart, st\<lparr>hash := ZopfliUpdateHash c inp i inend (hash st)\<rparr>)"
    by (auto simp: fast_path_def Let_def)
qed

theorem fast_path_taken_iff_witness:
  "(1000::nat) - 0 + 1 \<le> length (costs ex_dp300)
   \<and> (1000::nat) - 0 + 1 \<le> length (length_array ex_dp300)
   \<and> ZopfliHashSame ex_run517 (ZopfliUpdateHash ex_run517 ex_xs 300 1000 (hash ex_dp300))
        (300 AND ZOPFLI_WINDOW_MASK) > ZOPFLI_MAX_MATCH * 2
   \<and> (300::nat) > 0 + ZOPFLI_MAX_MATCH + 1
   \<and> 300 + ZOPFLI_MAX_MATCH * 2 + 1 < (1000::nat)
   \<and> ZopfliHashSame ex_run517 (ZopfliUpdateHash ex_run517 ex_xs 300 1000 (hash ex_dp300))
        ((300 - ZOPFLI_MAX_MATCH) AND ZOPFLI_WINDOW_MASK) > ZOPFLI_MAX_MATCH
   \<and> (\<exists>st'. fast_path ex_run517 ex_xs 0 1000 ex_cm 300 ex_dp300 = Inr (558, 558, st')
          \<and> costs st' ! 558 = 12 \<and> length_array st' ! 558 = 258
          \<and> costs st' ! 815 = 12 \<and> length_array st' ! 815 = 258
          \<and> costs st' ! 816 = 0 \<and> length_array st' ! 816 = 1)"
proof -
  have l: "(1000::nat) - 0 + 1 \<le> length (costs ex_dp300)"
    "(1000::nat) - 0 + 1 \<le> length (length_array ex_dp300)"
    by (simp_all add: ex_dp300_def)
  have t: "ZopfliHashSame ex_run517 (ZopfliUpdateHash ex_run517 ex_xs 300 1000 (hash ex_dp300))
        (300 AND ZOPFLI_WINDOW_MASK) > ZOPFLI_MAX_MATCH * 2
   \<and> (300::nat) > 0 + ZOPFLI_MAX_MATCH + 1
   \<and> 300 + ZOPFLI_MAX_MATCH * 2 + 1 < (1000::nat)
   \<and> ZopfliHashSame ex_run517 (ZopfliUpdateHash ex_run517 ex_xs 300 1000 (hash ex_dp300))
        ((300 - ZOPFLI_MAX_MATCH) AND ZOPFLI_WINDOW_MASK) > ZOPFLI_MAX_MATCH"
    by (simp add: ex_run517_def ex_c_def ZOPFLI_MAX_MATCH_def)
  from fast_path_taken_iff [OF l, of ex_run517 ex_xs 300 ex_cm] t
  obtain st' where
    r: "fast_path ex_run517 ex_xs 0 1000 ex_cm 300 ex_dp300 =
          Inr (300 + ZOPFLI_MAX_MATCH, 300 - 0 + ZOPFLI_MAX_MATCH, st')"
    and cs: "\<And>x. costs st' ! x =
                     (if 300 - 0 + ZOPFLI_MAX_MATCH \<le> x
                         \<and> x < 300 - 0 + ZOPFLI_MAX_MATCH * 2

                         then to_float (to_double (costs ex_dp300 ! (x - ZOPFLI_MAX_MATCH) + ex_cm ZOPFLI_MAX_MATCH 1))
                      else costs ex_dp300 ! x)"
    and la: "\<And>x. length_array st' ! x =
                     (if 300 - 0 + ZOPFLI_MAX_MATCH \<le> x
                         \<and> x < 300 - 0 + ZOPFLI_MAX_MATCH * 2
                      then ZOPFLI_MAX_MATCH else length_array ex_dp300 ! x)"
    by blast
  have "fast_path ex_run517 ex_xs 0 1000 ex_cm 300 ex_dp300 = Inr (558, 558, st')"
    using r by (simp add: ZOPFLI_MAX_MATCH_def)
  moreover have "costs st' ! 558 = 12" "length_array st' ! 558 = 258"
    "costs st' ! 815 = 12" "length_array st' ! 815 = 258"
    "costs st' ! 816 = 0" "length_array st' ! 816 = 1"
    by (simp_all add: cs la ZOPFLI_MAX_MATCH_def ex_dp300_def ex_cm_def round_numeral)
  ultimately show ?thesis using l t by blast
qed

text \<open>
  C4 as stated fails at the boundary: with a run of exactly 516 at position 300 of a block
  of 1000 bytes the four conditions of the claim hold, and the fast path is not taken
  (\<open>i\<close> stays 300 and only the hash changes).
\<close>

theorem fast_path_at_516_counterexample:
  "fast_path_claimed ex_run516 ex_xs 0 1000 300 ex_dp300
   \<and> fast_path ex_run516 ex_xs 0 1000 ex_cm 300 ex_dp300 =
       Inr (300, 300, ex_dp300\<lparr>hash := 301\<rparr>)"
  by (simp add: fast_path_claimed_def fast_path_def ex_run516_def ex_c_def ex_dp300_def
      ZOPFLI_MAX_MATCH_def Let_def)

section \<open>What GetCostModelMinCost bounds\<close>

text \<open>
  Two further cost models for examples.  In \<open>ex_coupled\<close> the cost of a match is not a
  sum of a length part and a distance part: the matches that the probe scans (length 3,
  or distance 1) cost 12, every other match costs 9.  In \<open>ex_additive\<close> it is such a sum,
  with parts that grow with the length and the distance.
\<close>

definition ex_coupled :: CostModelFun where
  "ex_coupled l d = (if d = 0 then 8 else if l = 3 \<or> d = 1 then 12 else 9)"

definition ex_additive :: CostModelFun where
  "ex_additive l d =
     (if d = 0 then 8 else (7 + real (l div 32)) + (5 + real (d div 256)))"

text \<open>Both loops of the probe keep the first minimum of the values they scan.\<close>

lemma scan_length_alt:
  "scan_length costmodel s i = (if costmodel i 1 < fst s then (costmodel i 1, i) else s)"
  by (cases s) (simp add: Let_def)

lemma scan_dist_alt:
  "scan_dist costmodel s d = (if costmodel 3 d < fst s then (costmodel 3 d, d) else s)"
  by (cases s) (simp add: Let_def)

lemma foldl_argmin:
  fixes f :: "nat \<Rightarrow> real"
  shows "foldl (\<lambda>s x. if f x < fst s then (f x, x) else s) (m0, b0) xs = (m, b) \<Longrightarrow>
     m \<le> m0 \<and> (\<forall>x \<in> set xs. m \<le> f x) \<and> ((m, b) = (m0, b0) \<or> b \<in> set xs \<and> m = f b)"
proof (induction xs arbitrary: m0 b0)
  case Nil
  then show ?case by simp
next
  case (Cons x xs)
  show ?case
  proof (cases "f x < m0")
    case True
    with Cons.prems have "foldl (\<lambda>s x. if f x < fst s then (f x, x) else s) (f x, x) xs = (m, b)"
      by simp
    from Cons.IH [OF this] True show ?thesis by auto
  next
    case False
    with Cons.prems have "foldl (\<lambda>s x. if f x < fst s then (f x, x) else s) (m0, b0) xs = (m, b)"
      by simp
    from Cons.IH [OF this] False show ?thesis by auto
  qed
qed

lemma foldl_argmin_found:
  fixes f :: "nat \<Rightarrow> real"
  assumes "x0 \<in> set xs" and "f x0 < m0"
  shows "snd (foldl (\<lambda>s x. if f x < fst s then (f x, x) else s) (m0, b0) xs) \<in> set xs
    \<and> (\<forall>x \<in> set xs.
          f (snd (foldl (\<lambda>s x. if f x < fst s then (f x, x) else s) (m0, b0) xs)) \<le> f x)"
proof -
  obtain m b where mb: "foldl (\<lambda>s x. if f x < fst s then (f x, x) else s) (m0, b0) xs = (m, b)"
    by (cases "foldl (\<lambda>s x. if f x < fst s then (f x, x) else s) (m0, b0) xs")
  from foldl_argmin [OF mb] assms have "m < m0" by fastforce
  with foldl_argmin [OF mb] have "b \<in> set xs" "m = f b" "\<forall>x \<in> set xs. m \<le> f x" by auto
  with mb show ?thesis by simp
qed

lemma bestlength_minimal:
  assumes "costmodel 3 1 < ZOPFLI_LARGE_FLOAT"
  defines "bl \<equiv> snd (foldl (scan_length costmodel) (ZOPFLI_LARGE_FLOAT, 0) [3..<259])"
  shows "3 \<le> bl \<and> bl \<le> 258 \<and> (\<forall>l. 3 \<le> l \<and> l \<le> 258 \<longrightarrow> costmodel bl 1 \<le> costmodel l 1)"
proof -
  have e: "scan_length costmodel = (\<lambda>s x. if costmodel x 1 < fst s then (costmodel x 1, x) else s)"
    by (intro ext) (rule scan_length_alt)
  have mem: "x \<in> set [3..<259] \<longleftrightarrow> 3 \<le> x \<and> x \<le> 258" for x :: nat
    by (simp only: set_upt atLeastLessThan_iff) arith
  have "(3::nat) \<in> set [3..<259]" by (simp only: mem) simp
  from foldl_argmin_found [of 3 "[3..<259]" "\<lambda>x. costmodel x 1", OF this assms(1), of 0]
  have m: "bl \<in> set [3..<259]" and le: "\<And>x. x \<in> set [3..<259] \<Longrightarrow> costmodel bl 1 \<le> costmodel x 1"
    unfolding bl_def e by blast+
  from m have "3 \<le> bl" "bl \<le> 258" by (simp_all only: mem)
  moreover have "costmodel bl 1 \<le> costmodel l 1" if "3 \<le> l \<and> l \<le> 258" for l
    using that by (intro le) (simp only: mem)
  ultimately show ?thesis by blast
qed

lemma dsymbols_range: "r \<in> set dsymbols \<Longrightarrow> 1 \<le> r \<and> r \<le> 32768"
proof -
  have "list_all (\<lambda>r. 1 \<le> r \<and> r \<le> 32768) dsymbols"
    by (simp add: dsymbols_def)
  then show "r \<in> set dsymbols \<Longrightarrow> 1 \<le> r \<and> r \<le> 32768"
    by (simp add: list_all_iff)
qed

lemma bestdist_minimal:
  assumes "costmodel 3 1 < ZOPFLI_LARGE_FLOAT"
  defines "bd \<equiv> snd (foldl (scan_dist costmodel) (ZOPFLI_LARGE_FLOAT, 0) dsymbols)"
  shows "bd \<in> set dsymbols \<and> (\<forall>r \<in> set dsymbols. costmodel 3 bd \<le> costmodel 3 r)"
proof -
  have e: "scan_dist costmodel = (\<lambda>s x. if costmodel 3 x < fst s then (costmodel 3 x, x) else s)"
    by (intro ext) (rule scan_dist_alt)
  have "(1::nat) \<in> set dsymbols" by (simp add: dsymbols_def)
  from foldl_argmin_found [of 1 dsymbols "\<lambda>x. costmodel 3 x", OF this assms(1), of 0]
  show ?thesis unfolding bd_def e .
qed

text \<open>
  C2, amended.  Let the cost of a match be the sum of a part \<open>a\<close> for the length and a
  part \<open>b\<close> for the distance, let every distance in \<open>[1, 32768]\<close> cost at least as much
  as one of the 30 representatives (the first distance of its class, say), and let
  \<open>costmodel 3 1\<close> be below \<^verbatim>\<open>ZOPFLI_LARGE_FLOAT\<close>.  Then the value returned by
  \<^verbatim>\<open>GetCostModelMinCost\<close> is at most the cost of every match of length \<open>k\<close> in
  \<open>[3, 258]\<close> and distance \<open>d\<close> in \<open>[1, 32768]\<close>.  Literal costs are not bounded.
\<close>

theorem min_cost_bounds_matches:
  assumes sep: "\<forall>l d. 3 \<le> l \<and> l \<le> 258 \<and> 1 \<le> d \<and> d \<le> 32768 \<longrightarrow> costmodel l d = a l + b d"
    and cls: "\<forall>d. 1 \<le> d \<and> d \<le> 32768 \<longrightarrow> (\<exists>r \<in> set dsymbols. b r \<le> b d)"
    and fin: "costmodel 3 1 < ZOPFLI_LARGE_FLOAT"
  shows "\<forall>k d. 3 \<le> k \<and> k \<le> 258 \<and> 1 \<le> d \<and> d \<le> 32768 \<longrightarrow>
           GetCostModelMinCost costmodel \<le> costmodel k d"
proof (intro allI impI)
  fix k d :: nat
  assume kd: "3 \<le> k \<and> k \<le> 258 \<and> 1 \<le> d \<and> d \<le> 32768"
  define bl where "bl = snd (foldl (scan_length costmodel) (ZOPFLI_LARGE_FLOAT, 0) [3..<259])"
  define bd where "bd = snd (foldl (scan_dist costmodel) (ZOPFLI_LARGE_FLOAT, 0) dsymbols)"
  from bestlength_minimal [where costmodel = costmodel, OF fin] have bl: "3 \<le> bl" "bl \<le> 258" "costmodel bl 1 \<le> costmodel k 1"
    using kd by (simp_all add: bl_def)
  from bestdist_minimal [where costmodel = costmodel, OF fin] have bd: "bd \<in> set dsymbols"
    "\<And>r. r \<in> set dsymbols \<Longrightarrow> costmodel 3 bd \<le> costmodel 3 r"
    by (simp_all add: bd_def)
  from dsymbols_range [OF bd(1)] have bdr: "1 \<le> bd" "bd \<le> 32768" by simp_all
  from cls kd obtain r where r: "r \<in> set dsymbols" "b r \<le> b d" by blast
  from dsymbols_range [OF r(1)] have rr: "1 \<le> r" "r \<le> 32768" by simp_all
  from sep bl kd have "a bl + b 1 \<le> a k + b 1" by simp
  moreover from sep bd(2) [OF r(1)] bdr rr have "a 3 + b bd \<le> a 3 + b r" by simp
  ultimately have "a bl + b bd \<le> a k + b d" using r(2) by simp
  with sep bl bdr kd have "costmodel bl bd \<le> costmodel k d" by simp
  then show "GetCostModelMinCost costmodel \<le> costmodel k d"
    by (simp add: GetCostModelMinCost_def Let_def bl_def bd_def)
qed

theorem min_cost_bounds_matches_witness:
  "ex_additive 3 1 < ZOPFLI_LARGE_FLOAT
   \<and> GetCostModelMinCost ex_additive \<le> ex_additive 200 3000
   \<and> GetCostModelMinCost ex_additive \<le> ex_additive 3 1"
proof -
  have sep: "\<forall>l d. 3 \<le> l \<and> l \<le> 258 \<and> 1 \<le> d \<and> d \<le> 32768 \<longrightarrow>
      ex_additive l d = (\<lambda>l. 7 + real (l div 32)) l + (\<lambda>d. 5 + real (d div 256)) d"
    by (simp add: ex_additive_def)
  have "(1::nat) \<in> set dsymbols" by (simp add: dsymbols_def)
  then have cls: "\<forall>d. 1 \<le> d \<and> d \<le> 32768 \<longrightarrow>
      (\<exists>r \<in> set dsymbols. (\<lambda>d. 5 + real (d div 256)) r \<le> (\<lambda>d. 5 + real (d div 256)) d)"
    by (intro allI impI bexI [of _ 1]) simp_all
  have fin: "ex_additive 3 1 < ZOPFLI_LARGE_FLOAT"
    by (simp add: ex_additive_def ZOPFLI_LARGE_FLOAT_value)
  from min_cost_bounds_matches [where costmodel = ex_additive
      and a = "\<lambda>l. 7 + real (l div 32)" and b = "\<lambda>d. 5 + real (d div 256)", OF sep cls fin]
  have "GetCostModelMinCost ex_additive \<le> ex_additive 200 3000"
    "GetCostModelMinCost ex_additive \<le> ex_additive 3 1"
    by simp_all
  with fin show ?thesis by simp
qed

text \<open>
  C2 as stated fails.  With 8 bits a literal and 12 bits a match the probe returns 12,
  above the cost of the literal \<^verbatim>\<open>a\<close>; and for \<open>ex_coupled\<close> it returns 12, above the
  cost 9 of the match of length 4 and distance 2.
\<close>

lemma ex_coupled_mincost: "GetCostModelMinCost ex_coupled = 12"
  by (simp add: GetCostModelMinCost_def dsymbols_def ex_coupled_def ZOPFLI_LARGE_FLOAT_value
      upt_rec [of _ "numeral _"])

theorem min_cost_not_lower_bound_counterexample:
  "ex_cm 97 0 < GetCostModelMinCost ex_cm
   \<and> ex_coupled 4 2 < GetCostModelMinCost ex_coupled"
  by (simp add: ex_mincost ex_coupled_mincost) (simp add: ex_cm_def ex_coupled_def)

section \<open>Rules for the loops of GetBestLengths\<close>

text \<open>
  What one relaxation does: it either leaves the state as it is, or writes the new cost
  and the edge length at the index it reaches.
\<close>

lemma relax_literal_cases:
  assumes "relax_literal inp inend costmodel i j st = Inr st'"
  obtains (unchanged) "st' = st"
      "i + 1 \<le> inend \<Longrightarrow>
         \<not> to_double (costs st ! j + costmodel (unat (inp ! i)) 0) < costs st ! (j + 1)"
    | (improved) "i + 1 \<le> inend" "i < length inp" "j + 1 < length (costs st)"
      "j + 1 < length (length_array st)"
      "0 \<le> to_double (costs st ! j + costmodel (unat (inp ! i)) 0)"
      "to_double (costs st ! j + costmodel (unat (inp ! i)) 0) < costs st ! (j + 1)"
      "st' = st\<lparr>costs := (costs st)[j + 1 :=
                            to_float (to_double (costs st ! j + costmodel (unat (inp ! i)) 0))],
                 length_array := (length_array st)[j + 1 := 1]\<rparr>"
  using assms
  by (auto simp: relax_literal_def Let_def not_le split: if_splits)

lemma relax_length_cases:
  assumes "relax_length costmodel mincost sublen j k st = Inr st'"
  obtains (pruned) "st' = st" "j + k < length (costs st)"
      "to_float (costs st ! (j + k) - costs st ! j) \<le> mincost"
    | (unchanged) "st' = st" "j + k < length (costs st)" "k < 259"
      "\<not> to_float (costs st ! (j + k) - costs st ! j) \<le> mincost"
      "0 \<le> to_double (costs st ! j + costmodel k (sublen k))"
      "\<not> to_double (costs st ! j + costmodel k (sublen k)) < costs st ! (j + k)"
    | (improved) "j + k < length (costs st)" "j + k < length (length_array st)"
      "k \<le> 258"
      "\<not> to_float (costs st ! (j + k) - costs st ! j) \<le> mincost"
      "0 \<le> to_double (costs st ! j + costmodel k (sublen k))"
      "to_double (costs st ! j + costmodel k (sublen k)) < costs st ! (j + k)"
      "st' = st\<lparr>costs := (costs st)[j + k :=
                            to_float (to_double (costs st ! j + costmodel k (sublen k)))],
                 length_array := (length_array st)[j + k := k]\<rparr>"
  using assms
  by (auto simp: relax_length_def Let_def not_le ZOPFLI_MAX_MATCH_def split: if_splits)

text \<open>
  Invariant rules for the loop over the lengths and for the main loop: one for a loop that
  is known to return, one that also shows that it returns.
\<close>

lemma relax_lengths_invariant:
  assumes "relax_lengths inend costmodel mincost leng sublen i j k st = Inr st'"
    and "P k st"
    and step: "\<And>k st st1. P k st \<Longrightarrow> k \<le> leng \<Longrightarrow> i + k \<le> inend \<Longrightarrow>
           relax_length costmodel mincost sublen j k st = Inr st1 \<Longrightarrow> P (k + 1) st1"
  shows "\<exists>k'. k \<le> k' \<and> P k' st' \<and> \<not> (k' \<le> leng \<and> i + k' \<le> inend)"
  using assms(1,2)
proof (induction "leng + 1 - k" arbitrary: k st rule: less_induct)
  case less
  show ?case
  proof (cases "k \<le> leng \<and> i + k \<le> inend")
    case False
    with less.prems show ?thesis
      by (auto simp: relax_lengths.simps [of inend costmodel mincost leng sublen i j k st])
  next
    case True
    with less.prems(1) obtain st1 where
      s: "relax_length costmodel mincost sublen j k st = Inr st1" and
      l: "relax_lengths inend costmodel mincost leng sublen i j (k + 1) st1 = Inr st'"
      by (auto simp: relax_lengths.simps [of inend costmodel mincost leng sublen i j k st]
          split: sum.splits)
    from step [OF less.prems(2) _ _ s] True have p: "P (k + 1) st1" by simp
    from True have "leng + 1 - (k + 1) < leng + 1 - k" by arith
    from less.hyps [OF this l p] obtain k' where
      k': "k + 1 \<le> k'" "P k' st'" "\<not> (k' \<le> leng \<and> i + k' \<le> inend)"
      by blast
    from k'(1) have "k \<le> k'" by simp
    with k'(2,3) show ?thesis by blast
  qed
qed


lemma GetBestLengths_round_cases:
  assumes "GetBestLengths_round c inp instart inend costmodel mincost i st = Inr (i', st')"
  obtains j1 st1 st2 where
    "fast_path c inp instart inend costmodel i st = Inr (i', j1, st1)"
    "relax_literal inp inend costmodel i' j1 st1 = Inr st2"
    "relax_lengths inend costmodel mincost
       (length_lm (fst (ZopfliFindLongestMatch c (hash st1) inp i' inend ZOPFLI_MAX_MATCH)))
       (snd (ZopfliFindLongestMatch c (hash st1) inp i' inend ZOPFLI_MAX_MATCH))
       i' j1 3 st2 = Inr st'"
  using assms
  by (auto simp: GetBestLengths_round_def Let_def split: sum.splits prod.splits)


lemma GetBestLengths_loop_invariant:
  assumes "GetBestLengths_loop c inp instart inend costmodel mincost i st = Inr st'"
    and "P i st"
    and step: "\<And>i st i' st1. P i st \<Longrightarrow> i < inend \<Longrightarrow>
           GetBestLengths_round c inp instart inend costmodel mincost i st = Inr (i', st1) \<Longrightarrow>
           P (i' + 1) st1"
  shows "\<exists>i'. i \<le> i' \<and> P i' st' \<and> \<not> i' < inend"
  using assms(1,2)
proof (induction "inend - i" arbitrary: i st rule: less_induct)
  case less
  show ?case
  proof (cases "i < inend")
    case False
    with less.prems show ?thesis
      by (auto simp: GetBestLengths_loop.simps [of c inp instart inend costmodel mincost i st])
  next
    case True
    with less.prems(1) obtain i1 st1 where
      r: "GetBestLengths_round c inp instart inend costmodel mincost i st = Inr (i1, st1)" and
      l: "GetBestLengths_loop c inp instart inend costmodel mincost (i1 + 1) st1 = Inr st'"
      by (auto simp: GetBestLengths_loop.simps [of c inp instart inend costmodel mincost i st]
          split: sum.splits)
    from step [OF less.prems(2) True r] have p: "P (i1 + 1) st1" .
    from True GetBestLengths_round_advances [OF r] have "inend - (i1 + 1) < inend - i" by arith
    from less.hyps [OF this l p] obtain i' where
      i': "i1 + 1 \<le> i'" "P i' st'" "\<not> i' < inend"
      by blast
    from i'(1) GetBestLengths_round_advances [OF r] have "i \<le> i'" by simp
    with i'(2,3) show ?thesis by blast
  qed
qed


text \<open>What the head of a round does, given arrays of at least \<open>inend - instart + 1\<close>
  entries: nothing but the update of the hash, or the 258 steps of the fast path.\<close>

lemma fast_path_cases:
  assumes "fast_path c inp instart inend costmodel i st = Inr (i1, j1, st1)"
    and "inend - instart + 1 \<le> length (costs st)"
    and "inend - instart + 1 \<le> length (length_array st)"
  obtains (skipped) "i1 = i" "j1 = i - instart"
      "st1 = st\<lparr>hash := ZopfliUpdateHash c inp i inend (hash st)\<rparr>"
      "\<not> (ZopfliHashSame c (ZopfliUpdateHash c inp i inend (hash st)) (i AND ZOPFLI_WINDOW_MASK)
             > ZOPFLI_MAX_MATCH * 2
          \<and> i > instart + ZOPFLI_MAX_MATCH + 1
          \<and> i + ZOPFLI_MAX_MATCH * 2 + 1 < inend
          \<and> ZopfliHashSame c (ZopfliUpdateHash c inp i inend (hash st))
               ((i - ZOPFLI_MAX_MATCH) AND ZOPFLI_WINDOW_MASK) > ZOPFLI_MAX_MATCH)"
    | (taken) "ZopfliHashSame c (ZopfliUpdateHash c inp i inend (hash st))
               (i AND ZOPFLI_WINDOW_MASK) > ZOPFLI_MAX_MATCH * 2"
      "ZopfliHashSame c (ZopfliUpdateHash c inp i inend (hash st))
               ((i - ZOPFLI_MAX_MATCH) AND ZOPFLI_WINDOW_MASK) > ZOPFLI_MAX_MATCH"
      "instart + 259 < i" "i + 517 < inend"
      "i1 = i + 258" "j1 = i - instart + 258"
      "length (costs st1) = length (costs st)"
      "length (length_array st1) = length (length_array st)"
      "\<And>x. costs st1 ! x =
             (if i - instart + 258 \<le> x \<and> x < i - instart + 516
              then to_float (to_double (costs st ! (x - 258) + costmodel 258 1)) else costs st ! x)"
      "\<And>x. length_array st1 ! x =
             (if i - instart + 258 \<le> x \<and> x < i - instart + 516 then 258
              else length_array st ! x)"
      "hash st1 = foldl (\<lambda>h p. ZopfliUpdateHash c inp p inend h) (hash st) [i..<i + 259]"
proof (cases "ZopfliHashSame c (ZopfliUpdateHash c inp i inend (hash st)) (i AND ZOPFLI_WINDOW_MASK)
             > ZOPFLI_MAX_MATCH * 2
          \<and> i > instart + ZOPFLI_MAX_MATCH + 1
          \<and> i + ZOPFLI_MAX_MATCH * 2 + 1 < inend
          \<and> ZopfliHashSame c (ZopfliUpdateHash c inp i inend (hash st))
               ((i - ZOPFLI_MAX_MATCH) AND ZOPFLI_WINDOW_MASK) > ZOPFLI_MAX_MATCH")
  case False
  with assms(1) have e: "i1 = i" "j1 = i - instart"
      "st1 = st\<lparr>hash := ZopfliUpdateHash c inp i inend (hash st)\<rparr>"
    by (auto simp: fast_path_def Let_def)
  show ?thesis by (rule skipped [OF e False])
next
  case True
  let ?st0 = "st\<lparr>hash := ZopfliUpdateHash c inp i inend (hash st)\<rparr>"
  let ?j = "i - instart"
  from True have unf: "fast_path c inp instart inend costmodel i st =
      fast_path_loop c inp inend (costmodel ZOPFLI_MAX_MATCH 1) 0 i ?j ?st0"
    by (simp add: fast_path_def Let_def)
  from True have num: "instart + 259 < i" "i + 517 < inend"
    by (simp_all add: ZOPFLI_MAX_MATCH_def)
  with assms(2,3) have b: "?j + 258 + (258 - 0) \<le> length (costs ?st0)"
    "?j + 258 + (258 - 0) \<le> length (length_array ?st0)"
    by (simp_all; arith)+
  from fast_path_loop_closed [OF b, of c inp inend "costmodel ZOPFLI_MAX_MATCH 1" i]
  obtain st' where
    r: "fast_path_loop c inp inend (costmodel ZOPFLI_MAX_MATCH 1) 0 i ?j ?st0 =
          Inr (i + (258 - 0), ?j + (258 - 0), st')"
    and rest: "length (costs st') = length (costs ?st0)"
      "length (length_array st') = length (length_array ?st0)"
      "\<And>x. costs st' ! x =
            (if ?j + 258 \<le> x \<and> x < ?j + 258 + (258 - 0)

                then to_float (to_double (costs ?st0 ! (x - 258) + costmodel ZOPFLI_MAX_MATCH 1)) else costs ?st0 ! x)"
      "\<And>x. length_array st' ! x =
            (if ?j + 258 \<le> x \<and> x < ?j + 258 + (258 - 0) then 258
             else length_array ?st0 ! x)"
      "hash st' = foldl (\<lambda>h p. ZopfliUpdateHash c inp p inend h) (hash ?st0)
                      [i + 1..<i + 1 + (258 - 0)]"
    by blast
  from r unf assms(1) have e: "i1 = i + 258" "j1 = ?j + 258" "st1 = st'" by simp_all
  have "[i..<i + 259] = i # [i + 1..<i + 1 + (258 - 0)]"
    by (simp add: upt_rec [of i] add.commute)
  with rest(5) have h: "hash st' = foldl (\<lambda>h p. ZopfliUpdateHash c inp p inend h) (hash st)
                               [i..<i + 259]"
    by simp
  show ?thesis
  proof (rule taken)
    show "\<And>x. costs st1 ! x =
             (if i - instart + 258 \<le> x \<and> x < i - instart + 516
              then to_float (to_double (costs st ! (x - 258) + costmodel 258 1)) else costs st ! x)"
      using rest(3) by (simp add: e ZOPFLI_MAX_MATCH_def)
    show "\<And>x. length_array st1 ! x =
             (if i - instart + 258 \<le> x \<and> x < i - instart + 516 then 258
              else length_array st ! x)"
      using rest(4) by (simp add: e)
  qed (use True num e rest(1,2) h in simp_all)
qed

text \<open>
  The invariant of \<^verbatim>\<open>length_array\<close> during the forward pass, \<open>la0\<close> being the array
  as the caller passed it: entry 0 is 0, and every index \<open>x\<close> in \<open>(0, b]\<close> either holds
  a valid edge length (1, or between 3 and 258, and at most \<open>x\<close>) or was never written:
  its cost is still the sentinel and its length is the caller's.
\<close>

definition lengths_valid :: "nat \<Rightarrow> nat list \<Rightarrow> real list \<Rightarrow> nat list \<Rightarrow> bool" where
  "lengths_valid b la0 cs la =
     (la ! 0 = 0 \<and>
      (\<forall>x. 0 < x \<and> x \<le> b \<longrightarrow>
         (la ! x = 1 \<or> 3 \<le> la ! x \<and> la ! x \<le> 258) \<and> la ! x \<le> x
         \<or> cs ! x = large_float \<and> la ! x = la0 ! x))"

text \<open>The sizes of the two arrays: \<open>b + 1\<close> costs, and \<open>n\<close> lengths with \<open>b + 1 \<le> n\<close>.\<close>

definition shape :: "nat \<Rightarrow> nat \<Rightarrow> 'h dp_state \<Rightarrow> bool" where
  "shape b n st = (length (costs st) = b + 1 \<and> length (length_array st) = n \<and> b + 1 \<le> n)"

lemma relax_literal_shape:
  "relax_literal inp inend costmodel i j st = Inr st' \<Longrightarrow> shape b n st \<Longrightarrow>
     shape b n st' \<and> hash st' = hash st"
  by (erule relax_literal_cases) (auto simp: shape_def)

lemma relax_length_shape:
  "relax_length costmodel mincost sublen j k st = Inr st' \<Longrightarrow> shape b n st \<Longrightarrow>
     shape b n st' \<and> hash st' = hash st"
  by (erule relax_length_cases) (auto simp: shape_def)

lemma relax_lengths_shape:
  assumes "relax_lengths inend costmodel mincost leng sublen i j k st = Inr st'"
    and "shape b n st"
  shows "shape b n st' \<and> hash st' = hash st"
proof -
  from relax_lengths_invariant [where P = "\<lambda>k s. shape b n s \<and> hash s = hash st", OF assms(1)]
    assms(2) relax_length_shape
  show ?thesis by metis
qed

lemma fast_path_shape:
  assumes "fast_path c inp instart inend costmodel i st = Inr (i1, j1, st1)"
    and "shape (inend - instart) n st"
  shows "shape (inend - instart) n st1"
  using assms(1)
proof (rule fast_path_cases)
  show "inend - instart + 1 \<le> length (costs st)" "inend - instart + 1 \<le> length (length_array st)"
    using assms(2) by (simp_all add: shape_def)
qed (use assms(2) in \<open>simp_all add: shape_def\<close>)

section \<open>The invariant of length_array\<close>

lemma relax_literal_lengths_valid:
  assumes "relax_literal inp inend costmodel i j st = Inr st'"
    and "lengths_valid b la0 (costs st) (length_array st)"
  shows "lengths_valid b la0 (costs st') (length_array st')"
  using assms(1)
proof (cases rule: relax_literal_cases)
  case unchanged
  with assms(2) show ?thesis by simp
next
  case improved
  with assms(2) show ?thesis
    unfolding lengths_valid_def by (auto simp: nth_list_update)
qed

lemma relax_length_lengths_valid:
  assumes "relax_length costmodel mincost sublen j k st = Inr st'"
    and "lengths_valid b la0 (costs st) (length_array st)"
    and "3 \<le> k"
  shows "lengths_valid b la0 (costs st') (length_array st')"
  using assms(1)
proof (cases rule: relax_length_cases)
  case improved
  with assms(2,3) show ?thesis
    unfolding lengths_valid_def by (auto simp: nth_list_update)
qed (use assms(2) in simp_all)

lemma relax_lengths_lengths_valid:
  assumes "relax_lengths inend costmodel mincost leng sublen i j k st = Inr st'"
    and "lengths_valid b la0 (costs st) (length_array st)"
    and "3 \<le> k"
  shows "lengths_valid b la0 (costs st') (length_array st')"
proof -
  have "\<exists>k'. k \<le> k' \<and> (3 \<le> k' \<and> lengths_valid b la0 (costs st') (length_array st'))
          \<and> \<not> (k' \<le> leng \<and> i + k' \<le> inend)"
  proof (rule relax_lengths_invariant
      [where P = "\<lambda>k s. 3 \<le> k \<and> lengths_valid b la0 (costs s) (length_array s)", OF assms(1)])
    show "3 \<le> k \<and> lengths_valid b la0 (costs st) (length_array st)"
      using assms(2,3) by simp
  next
    fix k st st1
    assume "3 \<le> k \<and> lengths_valid b la0 (costs st) (length_array st)"
      and "relax_length costmodel mincost sublen j k st = Inr st1"
    then show "3 \<le> k + 1 \<and> lengths_valid b la0 (costs st1) (length_array st1)"
      using relax_length_lengths_valid [of costmodel mincost sublen j k st st1 b la0] by simp
  qed
  then show ?thesis by blast
qed

lemma fast_path_lengths_valid:
  assumes "fast_path c inp instart inend costmodel i st = Inr (i1, j1, st1)"
    and "shape (inend - instart) n st"
    and "lengths_valid b la0 (costs st) (length_array st)"
  shows "lengths_valid b la0 (costs st1) (length_array st1)"
proof -
  from assms(2) have "inend - instart + 1 \<le> length (costs st)"
    "inend - instart + 1 \<le> length (length_array st)"
    by (simp_all add: shape_def)
  with assms(1) show ?thesis
  proof (cases rule: fast_path_cases)
    case skipped
    with assms(3) show ?thesis by simp
  next
    case taken
    from assms(3) taken(9,10) show ?thesis
      unfolding lengths_valid_def by auto
  qed
qed

lemma GetBestLengths_round_lengths_valid:
  assumes "GetBestLengths_round c inp instart inend costmodel mincost i st = Inr (i', st')"
    and "shape (inend - instart) n st"
    and "lengths_valid b la0 (costs st) (length_array st)"
  shows "shape (inend - instart) n st' \<and> lengths_valid b la0 (costs st') (length_array st')"
  using assms(1)
proof (cases rule: GetBestLengths_round_cases)
  case (1 j1 st1 st2)
  from fast_path_shape [OF 1(1) assms(2)] fast_path_lengths_valid [OF 1(1) assms(2,3)]
  have a: "shape (inend - instart) n st1" "lengths_valid b la0 (costs st1) (length_array st1)"
    by simp_all
  from relax_literal_shape [OF 1(2) a(1)] relax_literal_lengths_valid [OF 1(2) a(2)]
  have b: "shape (inend - instart) n st2" "lengths_valid b la0 (costs st2) (length_array st2)"
    by simp_all
  from relax_lengths_shape [OF 1(3) b(1)] relax_lengths_lengths_valid [OF 1(3) b(2)]
  show ?thesis by simp
qed

lemma GetBestLengths_loop_lengths_valid:
  assumes "GetBestLengths_loop c inp instart inend costmodel mincost i st = Inr st'"
    and "shape (inend - instart) n st"
    and "lengths_valid b la0 (costs st) (length_array st)"
  shows "shape (inend - instart) n st' \<and> lengths_valid b la0 (costs st') (length_array st')"
proof -
  have "\<exists>i'. i \<le> i'
          \<and> (shape (inend - instart) n st' \<and> lengths_valid b la0 (costs st') (length_array st'))
          \<and> \<not> i' < inend"
  proof (rule GetBestLengths_loop_invariant
      [where P = "\<lambda>i s. shape (inend - instart) n s
                    \<and> lengths_valid b la0 (costs s) (length_array s)", OF assms(1)])
    show "shape (inend - instart) n st \<and> lengths_valid b la0 (costs st) (length_array st)"
      using assms(2,3) by simp
  next
    fix i st i' st1
    assume "shape (inend - instart) n st \<and> lengths_valid b la0 (costs st) (length_array st)"
      and "GetBestLengths_round c inp instart inend costmodel mincost i st = Inr (i', st1)"
    then show "shape (inend - instart) n st1
        \<and> lengths_valid b la0 (costs st1) (length_array st1)"
      using GetBestLengths_round_lengths_valid by blast
  qed
  then show ?thesis by blast
qed

lemma GetBestLengths_Inr:
  assumes "GetBestLengths c inp instart inend costmodel la0 = Inr r" and "instart < inend"
  obtains st' where
    "GetBestLengths_loop c inp instart inend costmodel (GetCostModelMinCost costmodel) instart
       \<lparr>costs = (replicate (inend - instart + 1) large_float)[0 := 0],
        length_array = la0[0 := 0], hash = warm_hash c inp instart inend\<rparr> = Inr st'"
    "la0 \<noteq> []" "0 \<le> costs st' ! (inend - instart)"
    "r = \<lparr>cost_returned = costs st' ! (inend - instart), final_costs = costs st',
          final_length_array = length_array st'\<rparr>"
  using assms
  by (auto simp: GetBestLengths_def Let_def split: if_splits sum.splits)

lemma initial_lengths_valid:
  "la0 \<noteq> [] \<Longrightarrow>
     lengths_valid b la0 ((replicate (b + 1) large_float)[0 := 0]) (la0[0 := 0])"
  unfolding lengths_valid_def by (auto simp: nth_list_update)

lemma GetBestLengths_lengths_valid:
  assumes "GetBestLengths c inp instart inend costmodel la0 = Inr r"
    and "instart < inend" and "inend - instart + 1 \<le> length la0"
  shows "final_length_array r ! 0 = 0
    \<and> (\<forall>x. 0 < x \<and> x \<le> inend - instart \<longrightarrow>
          (final_length_array r ! x = 1
             \<or> 3 \<le> final_length_array r ! x \<and> final_length_array r ! x \<le> 258)
          \<and> final_length_array r ! x \<noteq> 0 \<and> final_length_array r ! x \<le> x
          \<or> final_costs r ! x = large_float \<and> final_length_array r ! x = la0 ! x)"
  using assms(1,2)
proof (cases rule: GetBestLengths_Inr)
  case (1 st')
  let ?b = "inend - instart"
  have "shape ?b (length la0)
     \<lparr>costs = (replicate (?b + 1) large_float)[0 := 0],
      length_array = la0[0 := 0], hash = warm_hash c inp instart inend\<rparr>"
    using assms(3) by (simp add: shape_def)
  from GetBestLengths_loop_lengths_valid [OF 1(1) this, of ?b la0] initial_lengths_valid [OF 1(2)]
  have "lengths_valid ?b la0 (costs st') (length_array st')" by simp
  then show ?thesis
    unfolding lengths_valid_def 1(4) by auto
qed

text \<open>
  C5.  After \<^verbatim>\<open>GetBestLengths\<close> completes on a non-empty block, with a
  \<^verbatim>\<open>length_array\<close> of at least \<open>inend - instart + 1\<close> entries: entry 0 is 0, and
  every index \<open>x\<close> in \<open>(0, B]\<close> that was reached (written at least once, by a relaxation
  or by the fast path) holds 1 or a value in \<open>[3, 258]\<close>, not 0 and at most \<open>x\<close>; an index
  that does not is one that was never written, with its cost still the sentinel and its
  length as the caller passed it.  The invariant \<open>lengths_valid\<close> behind this is
  preserved by the literal relaxation, by the relaxation of a match of length at least 3,
  and by the fast path.
\<close>

theorem length_array_valid:
  "(GetBestLengths c inp instart inend costmodel la0 = Inr r
      \<and> instart < inend \<and> inend - instart + 1 \<le> length la0 \<longrightarrow>
      final_length_array r ! 0 = 0
      \<and> (\<forall>x. 0 < x \<and> x \<le> inend - instart \<longrightarrow>
            (final_length_array r ! x = 1
               \<or> 3 \<le> final_length_array r ! x \<and> final_length_array r ! x \<le> 258)
            \<and> final_length_array r ! x \<noteq> 0 \<and> final_length_array r ! x \<le> x
            \<or> final_costs r ! x = large_float \<and> final_length_array r ! x = la0 ! x))
   \<and> (relax_literal inp inend costmodel i j st = Inr st'
        \<and> lengths_valid b la1 (costs st) (length_array st) \<longrightarrow>
        lengths_valid b la1 (costs st') (length_array st'))
   \<and> (relax_length costmodel mincost sublen j k st = Inr st' \<and> 3 \<le> k
        \<and> lengths_valid b la1 (costs st) (length_array st) \<longrightarrow>
        lengths_valid b la1 (costs st') (length_array st'))
   \<and> (fast_path c inp instart inend costmodel i st = Inr (i1, j1, st1)
        \<and> shape (inend - instart) n st
        \<and> lengths_valid b la1 (costs st) (length_array st) \<longrightarrow>
        lengths_valid b la1 (costs st1) (length_array st1))"
  using GetBestLengths_lengths_valid [of c inp instart inend costmodel la0 r]
    relax_literal_lengths_valid [of inp inend costmodel i j st st' b la1]
    relax_length_lengths_valid [of costmodel mincost sublen j k st st' b la1]
    fast_path_lengths_valid [of c inp instart inend costmodel i st i1 j1 st1 n b la1]
  by blast

theorem length_array_valid_witness:
  "GetBestLengths ex_c ex_abc 0 6 ex_cm ex_la =
     Inr \<lparr>cost_returned = 36, final_costs = [0, 8, 16, 24, 32, 40, 36],
          final_length_array = [0, 1, 1, 1, 1, 1, 3]\<rparr>
   \<and> (0::nat) < 6 \<and> 6 - 0 + 1 \<le> length ex_la
   \<and> (3::nat) \<le> [0, 1, 1, 1, 1, 1, 3] ! 6 \<and> [0, 1, 1, 1, 1, 1, 3 :: nat] ! 6 \<le> 6"
proof -
  have l: "6 - 0 + 1 \<le> length ex_la" by (simp add: ex_la_def)
  from length_array_valid [of ex_c ex_abc 0 6 ex_cm ex_la] ex_GetBestLengths l
  have "(final_length_array \<lparr>cost_returned = 36, final_costs = [0, 8, 16, 24, 32, 40, 36],
          final_length_array = [0, 1, 1, 1, 1, 1, 3]\<rparr> ! 6 = 1
          \<or> 3 \<le> final_length_array \<lparr>cost_returned = 36, final_costs = [0, 8, 16, 24, 32, 40, 36],
          final_length_array = [0, 1, 1, 1, 1, 1, 3]\<rparr> ! 6
           \<and> final_length_array \<lparr>cost_returned = 36, final_costs = [0, 8, 16, 24, 32, 40, 36],
          final_length_array = [0, 1, 1, 1, 1, 1, 3]\<rparr> ! 6 \<le> 258)
          \<and> final_length_array \<lparr>cost_returned = 36, final_costs = [0, 8, 16, 24, 32, 40, 36],
          final_length_array = [0, 1, 1, 1, 1, 1, 3]\<rparr> ! 6 \<noteq> 0
          \<and> final_length_array \<lparr>cost_returned = 36, final_costs = [0, 8, 16, 24, 32, 40, 36],
          final_length_array = [0, 1, 1, 1, 1, 1, 3]\<rparr> ! 6 \<le> 6
          \<or> final_costs \<lparr>cost_returned = 36, final_costs = [0, 8, 16, 24, 32, 40, 36],
          final_length_array = [0, 1, 1, 1, 1, 1, 3]\<rparr> ! 6 = large_float
          \<and> final_length_array \<lparr>cost_returned = 36, final_costs = [0, 8, 16, 24, 32, 40, 36],
          final_length_array = [0, 1, 1, 1, 1, 1, 3]\<rparr> ! 6 = ex_la ! 6"
    by simp
  then have "(3::nat) \<le> [0, 1, 1, 1, 1, 1, 3] ! 6 \<and> [0, 1, 1, 1, 1, 1, 3 :: nat] ! 6 \<le> 6"
    by (simp add: large_float_value)
  with ex_GetBestLengths l show ?thesis by simp
qed


section \<open>The hash and the matches along the forward pass\<close>

text \<open>
  The hash before the round for position \<open>i\<close>: warmed up, then updated at every position
  from \<open>instart\<close> up to \<open>i\<close>.  The forward pass updates the hash once at each position,
  in order, also inside the fast path; so this is its hash at the start of that round.
\<close>

definition hash_before :: "'h collaborators \<Rightarrow> 8 word list \<Rightarrow> nat \<Rightarrow> nat \<Rightarrow> nat \<Rightarrow> 'h" where
  "hash_before c inp instart inend i =
     foldl (\<lambda>h p. ZopfliUpdateHash c inp p inend h) (warm_hash c inp instart inend)
       [instart..<i]"

text \<open>What the longest-match search reports at position \<open>i\<close> of the forward pass: the
  call is made when the hash has just been updated at \<open>i\<close>.\<close>

definition match_at ::
  "'h collaborators \<Rightarrow> 8 word list \<Rightarrow> nat \<Rightarrow> nat \<Rightarrow> nat \<Rightarrow> LongestMatch \<times> (nat \<Rightarrow> nat)" where
  "match_at c inp instart inend i =
     ZopfliFindLongestMatch c (hash_before c inp instart inend (i + 1)) inp i inend
       ZOPFLI_MAX_MATCH"


text \<open>Every entry of \<^verbatim>\<open>costs\<close> is non-negative.\<close>

definition costs_nonneg :: "'h dp_state \<Rightarrow> bool" where
  "costs_nonneg st = (\<forall>x < length (costs st). 0 \<le> costs st ! x)"


text \<open>
  \<open>mincost\<close> is a lower bound on the cost of every match edge that the search offers in
  the block: every length \<open>k\<close> from 3 to the reported length that fits in the block, with
  the distance \<^verbatim>\<open>sublen[k]\<close>.
\<close>

definition mincost_below_offered ::
  "'h collaborators \<Rightarrow> 8 word list \<Rightarrow> nat \<Rightarrow> nat \<Rightarrow> CostModelFun \<Rightarrow> real \<Rightarrow> bool" where
  "mincost_below_offered c inp instart inend costmodel mincost =
     (\<forall>i k. instart \<le> i \<and> i < inend \<and> 3 \<le> k
            \<and> k \<le> length_lm (fst (match_at c inp instart inend i)) \<and> i + k \<le> inend \<longrightarrow>
          mincost \<le> costmodel k (snd (match_at c inp instart inend i) k))"

lemma shape_hash_update [simp]: "shape b n (st\<lparr>hash := h\<rparr>) = shape b n st"
  by (simp add: shape_def)

lemma costs_nonneg_hash_update [simp]: "costs_nonneg (st\<lparr>hash := h\<rparr>) = costs_nonneg st"
  by (simp add: costs_nonneg_def)










section \<open>Rounds without the fast path\<close>



section \<open>What a round leaves unchanged\<close>
text \<open>
  Every write of a round goes to an index above the one of its position: the literal edge
  writes \<open>j + 1\<close>, a match edge \<open>j + k\<close> with \<open>3 \<le> k\<close>, the fast path
  \<open>j + 258\<close> and above.
\<close>

lemma relax_literal_frame:
  "relax_literal inp inend costmodel i j st = Inr st' \<Longrightarrow> x \<noteq> j + 1 \<Longrightarrow>
     costs st' ! x = costs st ! x"
  by (erule relax_literal_cases) simp_all

lemma relax_length_frame:
  "relax_length costmodel mincost sublen j k st = Inr st' \<Longrightarrow> x \<noteq> j + k \<Longrightarrow>
     costs st' ! x = costs st ! x"
  by (erule relax_length_cases) simp_all

lemma relax_lengths_frame:
  assumes "relax_lengths inend costmodel mincost leng sublen i j k st = Inr st'"
    and "x < j + k \<or> j + leng < x"
  shows "costs st' ! x = costs st ! x"
proof -
  have "\<exists>k'. k \<le> k' \<and> (k \<le> k' \<and> costs st' ! x = costs st ! x)
          \<and> \<not> (k' \<le> leng \<and> i + k' \<le> inend)"
  proof (rule relax_lengths_invariant
      [where P = "\<lambda>k' s. k \<le> k' \<and> costs s ! x = costs st ! x", OF assms(1)])
    show "k \<le> k \<and> costs st ! x = costs st ! x" by simp
  next
    fix k' s s1
    assume p: "k \<le> k' \<and> costs s ! x = costs st ! x" and k': "k' \<le> leng"
      and s: "relax_length costmodel mincost sublen j k' s = Inr s1"
    from p k' assms(2) have "x \<noteq> j + k'" by auto
    from relax_length_frame [OF s this] p
    show "k \<le> k' + 1 \<and> costs s1 ! x = costs st ! x" by simp
  qed
  then show ?thesis by blast
qed

lemma fast_path_frame:
  assumes "fast_path c inp instart inend costmodel i st = Inr (i1, j1, st1)"
    and "shape (inend - instart) n st"
  shows "x < i - instart + 258 \<or> i1 - instart + 258 \<le> x \<Longrightarrow> costs st1 ! x = costs st ! x"
    and "instart \<le> i \<Longrightarrow> j1 = i1 - instart" and "i \<le> i1"
proof -
  from assms(2) have "inend - instart + 1 \<le> length (costs st)"
    "inend - instart + 1 \<le> length (length_array st)"
    by (simp_all add: shape_def)
  with assms(1) have
    "(x < i - instart + 258 \<or> i1 - instart + 258 \<le> x \<longrightarrow> costs st1 ! x = costs st ! x)
     \<and> (instart \<le> i \<longrightarrow> j1 = i1 - instart) \<and> i \<le> i1"
  proof (cases rule: fast_path_cases)
    case skipped
    then show ?thesis by simp
  next
    case taken
    then show ?thesis by auto
  qed
  then show "x < i - instart + 258 \<or> i1 - instart + 258 \<le> x \<Longrightarrow> costs st1 ! x = costs st ! x"
    and "instart \<le> i \<Longrightarrow> j1 = i1 - instart" and "i \<le> i1"
    by blast+
qed

lemma GetBestLengths_round_shape:
  assumes "GetBestLengths_round c inp instart inend costmodel mincost i st = Inr (i', st')"
    and "shape (inend - instart) n st"
  shows "shape (inend - instart) n st'"
  using assms(1)
proof (cases rule: GetBestLengths_round_cases)
  case (1 j1 st1 st2)
  from relax_lengths_shape [OF 1(3)] relax_literal_shape [OF 1(2)]
    fast_path_shape [OF 1(1) assms(2)]
  show ?thesis by blast
qed

lemma GetBestLengths_round_frame:
  assumes "GetBestLengths_round c inp instart inend costmodel mincost i st = Inr (i', st')"
    and "shape (inend - instart) n st" and "instart \<le> i" and "x \<le> i - instart"
  shows "costs st' ! x = costs st ! x"
  using assms(1)
proof (cases rule: GetBestLengths_round_cases)
  case (1 j1 st1 st2)
  from assms(4) have "x < i - instart + 258 \<or> i' - instart + 258 \<le> x" by simp
  from fast_path_frame(1) [OF 1(1) assms(2) this] fast_path_frame(2,3) [OF 1(1) assms(2)]
    assms(3)
  have a: "costs st1 ! x = costs st ! x" "j1 = i' - instart" "i \<le> i'" by simp_all
  from a(2,3) assms(3,4) have x: "x \<noteq> j1 + 1" "x < j1 + 3" by arith+
  from relax_lengths_frame [OF 1(3)] x(2) relax_literal_frame [OF 1(2) x(1)] a(1)
  show ?thesis by simp
qed

lemma GetBestLengths_loop_frame:
  assumes "GetBestLengths_loop c inp instart inend costmodel mincost i st = Inr st'"
    and "shape (inend - instart) n st" and "instart \<le> i" and "x \<le> i - instart"
  shows "costs st' ! x = costs st ! x"
proof -
  let ?P = "\<lambda>i' s. i \<le> i' \<and> shape (inend - instart) n s \<and> costs s ! x = costs st ! x"
  have "\<exists>i'. i \<le> i' \<and> ?P i' st' \<and> \<not> i' < inend"
  proof (rule GetBestLengths_loop_invariant [where P = ?P, OF assms(1)])
    show "?P i st" using assms(2) by simp
  next
    fix i0 s i1 s1
    assume p: "?P i0 s" 
      and r: "GetBestLengths_round c inp instart inend costmodel mincost i0 s = Inr (i1, s1)"
    from p assms(3,4) have "instart \<le> i0" "x \<le> i0 - instart" by arith+
    from p have sh: "shape (inend - instart) n s" and cx: "costs s ! x = costs st ! x"
      and le: "i \<le> i0"
      by simp_all
    from GetBestLengths_round_frame [OF r sh \<open>instart \<le> i0\<close> \<open>x \<le> i0 - instart\<close>] cx
    have "costs s1 ! x = costs st ! x" by simp
    with GetBestLengths_round_shape [OF r sh] GetBestLengths_round_advances [OF r] le
    show "?P (i1 + 1) s1" by simp
  qed
  then show ?thesis by blast
qed


section \<open>Safety of the forward pass\<close>



text \<open>
  A bound on the cost that \<open>j\<close> edges of cost at most \<open>m\<close> can add up to in
  \<^verbatim>\<open>costs\<close>.  Every edge adds at most \<open>m\<close>; the sum is rounded to \<^verbatim>\<open>double\<close> and
  then to \<^verbatim>\<open>float\<close>, which multiplies it by at most \<open>1 + 2 ^ - 23\<close> and adds at most
  \<open>2 ^ - 149\<close>.
\<close>

definition cost_bound :: "real \<Rightarrow> nat \<Rightarrow> real" where
  "cost_bound m j = real j * (m + 2 powi (- 149)) * (1 + 2 powi (- 23)) ^ j"

lemma cost_bound_zero [simp]: "cost_bound m 0 = 0"
  by (simp add: cost_bound_def)

lemma cost_bound_nonneg: "0 \<le> m \<Longrightarrow> 0 \<le> cost_bound m j"
  by (simp add: cost_bound_def)















section \<open>The assertion of LZ77OptimalRun\<close>




section \<open>Rounds without the fast path\<close>




section \<open>Safety of GetBestLengths and of the assertion after it\<close>










end
